theory Spec2Isabelle
  imports Main
begin

section \<open>Calendar dates and timestamps\<close>

text \<open>
  The program computes with \<^verbatim>\<open>datetime.date\<close>, \<^verbatim>\<open>datetime.datetime\<close> and
  \<^verbatim>\<open>datetime.timedelta\<close> of the Python standard library. A date is represented by its
  proleptic Gregorian ordinal (\<^verbatim>\<open>date.toordinal()\<close>: 0001-01-01 is day 1, 9999-12-31 is
  day 3652059), so that comparison of dates is comparison of integers and adding
  \<^verbatim>\<open>timedelta(days=n)\<close> is adding \<open>n\<close>, with the library's \<^verbatim>\<open>OverflowError\<close> when the
  result leaves the representable range. The conversions between ordinals and
  year/month/day follow the library's own \<^verbatim>\<open>_ymd2ord\<close> and \<^verbatim>\<open>_ord2ymd\<close>.
\<close>

datatype py_error = ValueError | KeyError | OverflowError

type_synonym date = int

definition MAXORDINAL :: int where
  "MAXORDINAL = 3652059"

definition valid_date :: "date \<Rightarrow> bool" where
  "valid_date d \<longleftrightarrow> 1 \<le> d \<and> d \<le> MAXORDINAL"

definition is_leap :: "int \<Rightarrow> bool" where
  "is_leap y \<longleftrightarrow> y mod 4 = 0 \<and> (y mod 100 \<noteq> 0 \<or> y mod 400 = 0)"

definition days_before_year :: "int \<Rightarrow> int" where
  "days_before_year year =
     (let y = year - 1 in y * 365 + y div 4 - y div 100 + y div 400)"

definition DAYS_IN_MONTH :: "int list" where
  "DAYS_IN_MONTH = [-1, 31, 28, 31, 30, 31, 30, 31, 31, 30, 31, 30, 31]"

definition DAYS_BEFORE_MONTH :: "int list" where
  "DAYS_BEFORE_MONTH = [-1, 0, 31, 59, 90, 120, 151, 181, 212, 243, 273, 304, 334]"

definition days_in_month :: "int \<Rightarrow> int \<Rightarrow> int" where
  "days_in_month year month =
     (if month = 2 \<and> is_leap year then 29 else DAYS_IN_MONTH ! nat month)"

definition days_before_month :: "int \<Rightarrow> int \<Rightarrow> int" where
  "days_before_month year month =
     DAYS_BEFORE_MONTH ! nat month + (if month > 2 \<and> is_leap year then 1 else 0)"

definition ymd2ord :: "int \<Rightarrow> int \<Rightarrow> int \<Rightarrow> date" where
  "ymd2ord year month dd = days_before_year year + days_before_month year month + dd"

text \<open>\<^verbatim>\<open>date(year, month, day)\<close>: the constructor checks its fields.\<close>

definition mk_date :: "int \<Rightarrow> int \<Rightarrow> int \<Rightarrow> py_error + date" where
  "mk_date year month dd =
     (if \<not> (1 \<le> year \<and> year \<le> 9999) then Inl ValueError
      else if \<not> (1 \<le> month \<and> month \<le> 12) then Inl ValueError
      else if \<not> (1 \<le> dd \<and> dd \<le> days_in_month year month) then Inl ValueError
      else Inr (ymd2ord year month dd))"

text \<open>The second half of \<^verbatim>\<open>_ord2ymd\<close>: month and day from the zero-based day of the
  year \<open>n\<close>, by an estimate of the month that is corrected when it is too large.\<close>

definition month_day :: "int \<Rightarrow> bool \<Rightarrow> int \<times> int" where
  "month_day n leapyear =
     (let month = (n + 50) div 32;
          preceding = DAYS_BEFORE_MONTH ! nat month
                        + (if month > 2 \<and> leapyear then 1 else 0)
      in if preceding > n
         then
           let month = month - 1;
               preceding = preceding
                 - (DAYS_IN_MONTH ! nat month + (if month = 2 \<and> leapyear then 1 else 0))
           in (month, n - preceding + 1)
         else (month, n - preceding + 1))"

definition ord2ymd :: "date \<Rightarrow> int \<times> int \<times> int" where
  "ord2ymd n0 =
     (let n = n0 - 1;
          n400 = n div 146097; n = n mod 146097;
          year = n400 * 400 + 1;
          n100 = n div 36524; n = n mod 36524;
          n4 = n div 1461; n = n mod 1461;
          n1 = n div 365; n = n mod 365;
          year = year + n100 * 100 + n4 * 4 + n1
      in if n1 = 4 \<or> n100 = 4 then (year - 1, 12, 31)
         else (year, month_day n (n1 = 3 \<and> (n4 \<noteq> 24 \<or> n100 = 3))))"

definition year_of :: "date \<Rightarrow> int" where
  "year_of d = fst (ord2ymd d)"

text \<open>\<^verbatim>\<open>date.weekday()\<close>: Monday is 0, Sunday is 6.\<close>

definition weekday :: "date \<Rightarrow> int" where
  "weekday d = (d + 6) mod 7"

text \<open>\<^verbatim>\<open>d + timedelta(days=n)\<close>.\<close>

definition add_days :: "date \<Rightarrow> int \<Rightarrow> py_error + date" where
  "add_days d n =
     (let o' = d + n in if 0 < o' \<and> o' \<le> MAXORDINAL then Inr o' else Inl OverflowError)"

text \<open>\<^verbatim>\<open>date.isoformat()\<close>, that is \<^verbatim>\<open>"%04d-%02d-%02d" % (year, month, day)\<close>; the fields
  of a date have at most four, two and two digits.\<close>

definition digit_char :: "int \<Rightarrow> char" where
  "digit_char n = ''0123456789'' ! nat n"

definition pad2 :: "int \<Rightarrow> string" where
  "pad2 n = [digit_char (n div 10 mod 10), digit_char (n mod 10)]"

definition pad4 :: "int \<Rightarrow> string" where
  "pad4 n = [digit_char (n div 1000 mod 10), digit_char (n div 100 mod 10),
             digit_char (n div 10 mod 10), digit_char (n mod 10)]"

definition isoformat :: "date \<Rightarrow> string" where
  "isoformat d =
     (case ord2ymd d of (y, m, dd) \<Rightarrow> pad4 y @ ''-'' @ pad2 m @ ''-'' @ pad2 dd)"



text \<open>A timestamp (an aware \<^verbatim>\<open>datetime\<close> in UTC) is a number of microseconds since
  0001-01-01T00:00:00; the last representable one is 9999-12-31T23:59:59.999999. A
  \<^verbatim>\<open>timedelta\<close> is a number of microseconds; its constructor refuses more than
  999999999 days.\<close>

type_synonym datetime = int

definition DATETIME_MAX :: int where
  "DATETIME_MAX = MAXORDINAL * 86400 * 1000000 - 1"

definition valid_datetime :: "datetime \<Rightarrow> bool" where
  "valid_datetime t \<longleftrightarrow> 0 \<le> t \<and> t \<le> DATETIME_MAX"

definition timedelta_seconds :: "int \<Rightarrow> py_error + int" where
  "timedelta_seconds n =
     (if n div 86400 < - 999999999 \<or> 999999999 < n div 86400 then Inl OverflowError
      else Inr (n * 1000000))"

definition timedelta_minutes :: "int \<Rightarrow> py_error + int" where
  "timedelta_minutes n = timedelta_seconds (n * 60)"

text \<open>\<^verbatim>\<open>t + delta\<close> and \<^verbatim>\<open>t - delta\<close> on timestamps.\<close>

definition datetime_add :: "datetime \<Rightarrow> int \<Rightarrow> py_error + datetime" where
  "datetime_add t delta =
     (let t' = t + delta in if 0 \<le> t' \<and> t' \<le> DATETIME_MAX then Inr t' else Inl OverflowError)"

definition datetime_sub :: "datetime \<Rightarrow> int \<Rightarrow> py_error + datetime" where
  "datetime_sub t delta = datetime_add t (- delta)"


section \<open>Token provider and event fetcher (calendar.py)\<close>

subsection \<open>Configuration\<close>

definition CALENDARS :: "(string \<times> string) list" where
  "CALENDARS = [(''garden'', ''garden''), (''ballroom'', ''ballroom'')]"

definition TOKEN_URL :: string where
  "TOKEN_URL = ''https://login.microsoftonline.com/consumers/oauth2/v2.0/token''"

definition GRAPH_API_BASE :: string where
  "GRAPH_API_BASE = ''https://graph.microsoft.com/v1.0''"

text \<open>\<^verbatim>\<open>os.environ\<close> is a map from names to values, and \<^verbatim>\<open>os.environ.get(k, "")\<close> a lookup
  with the empty string for a missing name.\<close>

type_synonym environ = "string \<rightharpoonup> string"

definition environ_get :: "environ \<Rightarrow> string \<Rightarrow> string" where
  "environ_get env k = (case env k of Some v \<Rightarrow> v | None \<Rightarrow> '''')"

record config =
  client_id :: string
  client_secret :: string
  refresh_token :: string
  calendar_ids :: "(string \<times> string) list"

definition get_config :: "environ \<Rightarrow> config" where
  "get_config env =
     \<lparr>client_id = environ_get env ''MS_CLIENT_ID'',
      client_secret = environ_get env ''MS_CLIENT_SECRET'',
      refresh_token = environ_get env ''MS_REFRESH_TOKEN'',
      calendar_ids = [(''garden'', environ_get env ''CALENDAR_ID_GARDEN''),
                      (''ballroom'', environ_get env ''CALENDAR_ID_BALLROOM'')]\<rparr>"

subsection \<open>The provider's answers and the requests that are made\<close>

text \<open>
  The outcome of one HTTP request: the client raised (no connection, timeout), or a
  response arrived with a status code and a body. The body is \<open>None\<close> when
  \<^verbatim>\<open>response.json()\<close> raises or the JSON is not of the shape the provider documents;
  otherwise it is the decoded object. The token endpoint answers with an object that may
  carry \<^verbatim>\<open>access_token\<close> (a string) and \<^verbatim>\<open>expires_in\<close> (a lifetime in seconds, an
  integer). The event listing answers with an object that may carry \<^verbatim>\<open>value\<close> (a list of
  events) and \<^verbatim>\<open>@odata.nextLink\<close>; an event may carry \<^verbatim>\<open>isAllDay\<close> and the objects
  \<^verbatim>\<open>start\<close> and \<^verbatim>\<open>end\<close>, each of which may carry the string \<^verbatim>\<open>dateTime\<close>.
\<close>

datatype 'a http_result = ConnectError | Response int "'a option"

record token_body =
  access_token :: "string option"
  expires_in :: "int option"

record date_time_tz =
  dateTime :: "string option"

record event =
  isAllDay :: "bool option"
  ev_start :: "date_time_tz option"
  ev_end :: "date_time_tz option"

record page =
  page_value :: "event list option"
  odata_nextLink :: "string option"

text \<open>The requests the program sends, in the order it sends them: the form posted to
  the token endpoint, and each GET of the event listing with its URL, its query
  parameters (sent with the first request only) and the bearer token of its
  authorization header.\<close>

datatype net_call =
    TokenPost string "(string \<times> string) list"
  | GraphGet string "(string \<times> string) list option" string

subsection \<open>get\_access\_token\<close>

text \<open>The module globals \<^verbatim>\<open>_cached_token\<close> and \<^verbatim>\<open>_token_expires_at\<close>.\<close>

record token_state =
  cached_token :: "string option"
  token_expires_at :: "datetime option"

definition initial_token_state :: token_state where
  "initial_token_state = \<lparr>cached_token = None, token_expires_at = None\<rparr>"

text \<open>What the outside world does during one call of the fetcher: the environment
  variables, the clock when the cached token is examined, the token endpoint's answer
  should it be asked, the clock when the new token is stored, the answers of the event
  listing to the successive requests, and the local date.\<close>

record world =
  environ :: environ
  now_check :: datetime
  token_reply :: "token_body http_result"
  now_store :: datetime
  graph_replies :: "page http_result list"
  date_today :: date

definition token_form :: "config \<Rightarrow> (string \<times> string) list" where
  "token_form cfg =
     [(''client_id'', client_id cfg),
      (''client_secret'', client_secret cfg),
      (''refresh_token'', refresh_token cfg),
      (''grant_type'', ''refresh_token''),
      (''scope'', ''offline_access Calendars.Read'')]"

text \<open>The \<^verbatim>\<open>try\<close> block of \<^verbatim>\<open>get_access_token\<close>: every exception inside it is caught and
  turned into the result \<open>None\<close>. The assignment to \<^verbatim>\<open>_cached_token\<close> comes before the
  computation of the expiry, so it survives a failure of the latter.\<close>

definition refresh_access_token :: "world \<Rightarrow> token_state \<Rightarrow> string option \<times> token_state" where
  "refresh_access_token w st =
     (case token_reply w of
        ConnectError \<Rightarrow> (None, st)
      | Response status_code body \<Rightarrow>
          if status_code \<noteq> 200 then (None, st)
          else
            (case body of
               None \<Rightarrow> (None, st)
             | Some data \<Rightarrow>
                 (case access_token data of
                    None \<Rightarrow> (None, st)
                  | Some tok \<Rightarrow>
                      let st' = st\<lparr>cached_token := Some tok\<rparr> in
                      (case timedelta_seconds
                              (case expires_in data of None \<Rightarrow> 3600 | Some n \<Rightarrow> n) of
                         Inl e \<Rightarrow> (None, st')
                       | Inr delta \<Rightarrow>
                           (case datetime_add (now_store w) delta of
                              Inl e \<Rightarrow> (None, st')
                            | Inr expires \<Rightarrow>
                                (Some tok, st'\<lparr>token_expires_at := Some expires\<rparr>))))))"

text \<open>The test \<^verbatim>\<open>if _cached_token and _token_expires_at\<close> with the comparison under it.
  The subtraction is outside the \<^verbatim>\<open>try\<close> block.\<close>

definition cached_token_valid :: "world \<Rightarrow> token_state \<Rightarrow> py_error + bool" where
  "cached_token_valid w st =
     (case (cached_token st, token_expires_at st) of
        (Some tok, Some expires) \<Rightarrow>
          if tok = '''' then Inr False
          else
            (case timedelta_minutes 5 of
               Inl e \<Rightarrow> Inl e
             | Inr delta \<Rightarrow>
                 (case datetime_sub expires delta of
                    Inl e \<Rightarrow> Inl e
                  | Inr limit \<Rightarrow> Inr (now_check w < limit)))
      | _ \<Rightarrow> Inr False)"

text \<open>The result holds the returned token, the new state of the module globals and the
  requests that were sent.\<close>

definition get_access_token ::
  "world \<Rightarrow> token_state \<Rightarrow> py_error + (string option \<times> token_state \<times> net_call list)" where
  "get_access_token w st =
     (let cfg = get_config (environ w) in
      if refresh_token cfg = '''' then Inr (None, st, [])
      else
        (case cached_token_valid w st of
           Inl e \<Rightarrow> Inl e
         | Inr True \<Rightarrow> Inr (cached_token st, st, [])
         | Inr False \<Rightarrow>
             (case refresh_access_token w st of
                (result, st') \<Rightarrow> Inr (result, st', [TokenPost TOKEN_URL (token_form cfg)]))))"

subsection \<open>fetch\_calendar\_events\_graph\<close>

text \<open>\<^verbatim>\<open>s.replace("Z", "")\<close>.\<close>

definition replace_Z :: "string \<Rightarrow> string" where
  "replace_Z s = filter (\<lambda>c. c \<noteq> CHR ''Z'') s"

text \<open>The loop \<^verbatim>\<open>while current < event_end\<close>. The set is updated in place, so a step that
  raises leaves the dates added so far; the first component of the result is the
  exception, if any.\<close>

function add_event_dates ::
  "date \<Rightarrow> date \<Rightarrow> date \<Rightarrow> date \<Rightarrow> date set \<Rightarrow> py_error option \<times> date set" where
  "add_event_dates start_date end_date event_end current booked =
     (if current < event_end then
        (let booked' = (if start_date \<le> current \<and> current \<le> end_date
                        then insert current booked else booked)
         in case add_days current 1 of
              Inl e \<Rightarrow> (Some e, booked')
            | Inr next_day \<Rightarrow> add_event_dates start_date end_date event_end next_day booked')
      else (None, booked))"
  by pat_completeness auto
termination
  by (relation "measure (\<lambda>(start_date, end_date, event_end, current, booked).
                   nat (event_end - current))")
     (auto simp: add_days_def Let_def split: if_splits)

declare add_event_dates.simps [simp del]

text \<open>The body of \<^verbatim>\<open>for event in events\<close>. The parameter \<open>fromisoformat\<close> stands for
  \<^verbatim>\<open>datetime.fromisoformat(s).date()\<close>: the date of the timestamp written in \<open>s\<close>, or
  \<open>None\<close> where the library raises \<^verbatim>\<open>ValueError\<close>.\<close>

definition date_time_str :: "date_time_tz option \<Rightarrow> string" where
  "date_time_str field =
     (case field of
        None \<Rightarrow> ''''
      | Some dt \<Rightarrow> (case dateTime dt of None \<Rightarrow> '''' | Some s \<Rightarrow> s))"

definition process_event ::
  "(string \<Rightarrow> date option) \<Rightarrow> date \<Rightarrow> date \<Rightarrow> event \<Rightarrow> date set
     \<Rightarrow> py_error option \<times> date set" where
  "process_event fromisoformat start_date end_date ev booked =
     (if \<not> (case isAllDay ev of None \<Rightarrow> False | Some b \<Rightarrow> b) then (None, booked)
      else
        let start_str = date_time_str (ev_start ev);
            end_str = date_time_str (ev_end ev)
        in if start_str = '''' \<or> end_str = '''' then (None, booked)
           else
             (case fromisoformat (replace_Z start_str) of
                None \<Rightarrow> (Some ValueError, booked)
              | Some event_start \<Rightarrow>
                  (case fromisoformat (replace_Z end_str) of
                     None \<Rightarrow> (Some ValueError, booked)
                   | Some event_end \<Rightarrow>
                       add_event_dates start_date end_date event_end event_start booked)))"

fun process_events ::
  "(string \<Rightarrow> date option) \<Rightarrow> date \<Rightarrow> date \<Rightarrow> event list \<Rightarrow> date set
     \<Rightarrow> py_error option \<times> date set" where
  "process_events fromisoformat start_date end_date [] booked = (None, booked)"
| "process_events fromisoformat start_date end_date (ev # evs) booked =
     (case process_event fromisoformat start_date end_date ev booked of
        (Some e, booked') \<Rightarrow> (Some e, booked')
      | (None, booked') \<Rightarrow> process_events fromisoformat start_date end_date evs booked')"

definition GRAPH_PARAMS :: "(string \<times> string) list" where
  "GRAPH_PARAMS =
     [(''$select'', ''subject,start,end,isAllDay,showAs''),
      (''$top'', ''500''),
      (''$orderby'', ''start/dateTime'')]"

text \<open>
  The loop \<^verbatim>\<open>while url\<close> inside the \<^verbatim>\<open>try\<close> block. Each round sends one request and
  consumes the next answer of the list of answers; the recursion is on that list. A
  provider that keeps sending continuation links keeps the loop running: the result
  \<open>None\<close> says that the loop asked for more answers than the list holds. Every exception
  and every status other than 200 ends the loop with the dates collected so far.
\<close>

fun page_loop ::
  "(string \<Rightarrow> date option) \<Rightarrow> date \<Rightarrow> date \<Rightarrow> string \<Rightarrow> page http_result list
     \<Rightarrow> string option \<Rightarrow> (string \<times> string) list option \<Rightarrow> date set \<Rightarrow> net_call list
     \<Rightarrow> (date set \<times> net_call list) option" where
  "page_loop fromisoformat start_date end_date token [] url params booked sent =
     (case url of
        None \<Rightarrow> Some (booked, sent)
      | Some u \<Rightarrow> if u = '''' then Some (booked, sent) else None)"
| "page_loop fromisoformat start_date end_date token (reply # replies) url params booked sent =
     (case url of
        None \<Rightarrow> Some (booked, sent)
      | Some u \<Rightarrow>
          if u = '''' then Some (booked, sent)
          else
            let sent' = sent @ [GraphGet u params token] in
            (case reply of
               ConnectError \<Rightarrow> Some (booked, sent')
             | Response status_code body \<Rightarrow>
                 if status_code \<noteq> 200 then Some (booked, sent')
                 else
                   (case body of
                      None \<Rightarrow> Some (booked, sent')
                    | Some data \<Rightarrow>
                        (case process_events fromisoformat start_date end_date
                                (case page_value data of None \<Rightarrow> [] | Some events \<Rightarrow> events)
                                booked of
                           (Some e, booked') \<Rightarrow> Some (booked', sent')
                         | (None, booked') \<Rightarrow>
                             page_loop fromisoformat start_date end_date token replies
                               (odata_nextLink data) None booked' sent'))))"

definition events_url :: "string \<Rightarrow> string" where
  "events_url calendar_id =
     (if calendar_id \<noteq> '''' then GRAPH_API_BASE @ ''/me/calendars/'' @ calendar_id @ ''/events''
      else GRAPH_API_BASE @ ''/me/calendar/events'')"

text \<open>The result is \<open>None\<close> when the pagination did not end within the given answers,
  \<open>Some (Inl e)\<close> when the function raised \<open>e\<close> to its caller, and otherwise the returned
  set with the new state of the token globals and the requests that were sent.\<close>

definition fetch_calendar_events_graph ::
  "(string \<Rightarrow> date option) \<Rightarrow> world \<Rightarrow> string \<Rightarrow> date \<Rightarrow> date \<Rightarrow> token_state
     \<Rightarrow> (py_error + (date set \<times> token_state \<times> net_call list)) option" where
  "fetch_calendar_events_graph fromisoformat w calendar_id start_date end_date st =
     (case get_access_token w st of
        Inl e \<Rightarrow> Some (Inl e)
      | Inr (token_result, st', sent) \<Rightarrow>
          (case token_result of
             None \<Rightarrow> Some (Inr ({}, st', sent))
           | Some token \<Rightarrow>
               if token = '''' then Some (Inr ({}, st', sent))
               else
                 map_option (\<lambda>(booked, sent'). Inr (booked, st', sent'))
                   (page_loop fromisoformat start_date end_date token (graph_replies w)
                      (Some (events_url calendar_id)) (Some GRAPH_PARAMS) {} sent)))"

subsection \<open>get\_booked\_dates\<close>

text \<open>The window of the fetch: \<^verbatim>\<open>today\<close> and \<^verbatim>\<open>today + timedelta(days=months_ahead * 30)\<close>.\<close>

definition fetch_window :: "date \<Rightarrow> int \<Rightarrow> py_error + (date \<times> date)" where
  "fetch_window today_date months_ahead =
     (case add_days today_date (months_ahead * 30) of
        Inl e \<Rightarrow> Inl e
      | Inr end_date \<Rightarrow> Inr (today_date, end_date))"

definition get_booked_dates ::
  "(string \<Rightarrow> date option) \<Rightarrow> world \<Rightarrow> string \<Rightarrow> int \<Rightarrow> token_state
     \<Rightarrow> (py_error + (date set \<times> token_state \<times> net_call list)) option" where
  "get_booked_dates fromisoformat w venue months_ahead st =
     (if venue \<notin> set (map fst CALENDARS) then Some (Inr ({}, st, []))
      else
        (case fetch_window (date_today w) months_ahead of
           Inl e \<Rightarrow> Some (Inl e)
         | Inr (start_date, end_date) \<Rightarrow>
             let cfg = get_config (environ w) in
             if refresh_token cfg = '''' then Some (Inr ({}, st, []))
             else
               let calendar_id =
                     (case map_of (calendar_ids cfg) venue of Some c \<Rightarrow> c | None \<Rightarrow> '''')
               in fetch_calendar_events_graph fromisoformat w calendar_id start_date end_date st))"

section \<open>Availability projection (main.py)\<close>

text \<open>The module globals \<^verbatim>\<open>VENUES\<close>, \<^verbatim>\<open>VENUE_LEASE_END\<close> and \<^verbatim>\<open>_cache\<close>.\<close>

definition VENUES :: "string list" where
  "VENUES = map fst CALENDARS"

definition VENUE_LEASE_END :: "string \<rightharpoonup> date" where
  "VENUE_LEASE_END = [''ballroom'' \<mapsto> ymd2ord 2030 3 31]"

record cache_entry =
  booked_dates :: "date set"
  last_updated :: "datetime option"

type_synonym cache = "string \<rightharpoonup> cache_entry"

definition initial_cache :: cache where
  "initial_cache =
     map_of (map (\<lambda>venue. (venue, \<lparr>booked_dates = {}, last_updated = None\<rparr>)) VENUES)"

text \<open>
  One round of the loop of \<^verbatim>\<open>refresh_cache\<close>: the booked dates of the venue are fetched
  with \<^verbatim>\<open>months_ahead=48\<close>, and the entry of the venue receives the set and the time
  \<open>now\<close> of the clock after the fetch. An exception of the fetch leaves the cache as it
  was and ends the refresh.
\<close>

definition refresh_venue ::
  "(string \<Rightarrow> date option) \<Rightarrow> world \<Rightarrow> datetime \<Rightarrow> string \<Rightarrow> cache \<Rightarrow> token_state
     \<Rightarrow> (py_error + (cache \<times> token_state \<times> net_call list)) option" where
  "refresh_venue fromisoformat w now venue cache st =
     (case get_booked_dates fromisoformat w venue 48 st of
        None \<Rightarrow> None
      | Some (Inl e) \<Rightarrow> Some (Inl e)
      | Some (Inr (booked, st', sent)) \<Rightarrow>
          (case cache venue of
             None \<Rightarrow> Some (Inl KeyError)
           | Some entry \<Rightarrow>
               Some (Inr (cache(venue \<mapsto> entry\<lparr>booked_dates := booked, last_updated := Some now\<rparr>),
                          st', sent))))"

text \<open>The loop over the venues; \<open>worlds\<close> gives, for each venue, what the outside
  world does during its round and the time of its timestamp.\<close>

fun refresh_loop ::
  "(string \<Rightarrow> date option) \<Rightarrow> (string \<Rightarrow> world \<times> datetime) \<Rightarrow> string list \<Rightarrow> cache
     \<Rightarrow> token_state \<Rightarrow> (py_error + (cache \<times> token_state)) option" where
  "refresh_loop fromisoformat worlds [] cache st = Some (Inr (cache, st))"
| "refresh_loop fromisoformat worlds (venue # venues) cache st =
     (case refresh_venue fromisoformat (fst (worlds venue)) (snd (worlds venue)) venue cache st of
        None \<Rightarrow> None
      | Some (Inl e) \<Rightarrow> Some (Inl e)
      | Some (Inr (cache', st', sent)) \<Rightarrow> refresh_loop fromisoformat worlds venues cache' st')"

definition refresh_cache ::
  "(string \<Rightarrow> date option) \<Rightarrow> (string \<Rightarrow> world \<times> datetime) \<Rightarrow> cache \<Rightarrow> token_state
     \<Rightarrow> (py_error + (cache \<times> token_state)) option" where
  "refresh_cache fromisoformat worlds cache st = refresh_loop fromisoformat worlds VENUES cache st"

text \<open>One element of the list that \<^verbatim>\<open>get_weekend_days_for_year\<close> returns: a dictionary
  with the keys \<^verbatim>\<open>date\<close>, \<^verbatim>\<open>day\<close> and \<^verbatim>\<open>available\<close>.\<close>

record weekend_day =
  date :: string
  day :: string
  available :: bool

definition day_name :: "int \<Rightarrow> string" where
  "day_name wd = ['''', '''', '''', '''', ''friday'', ''saturday'', ''sunday''] ! nat wd"

definition day_entry :: "date set \<Rightarrow> date \<Rightarrow> weekend_day" where
  "day_entry booked current =
     \<lparr>date = isoformat current, day = day_name (weekday current),
      available = (current \<notin> booked)\<rparr>"

text \<open>The \<^verbatim>\<open>while current <= end_date\<close> loop. The step \<^verbatim>\<open>current += timedelta(days=1)\<close>
  raises when \<open>current\<close> is the last representable date.\<close>

function weekend_loop ::
  "date \<Rightarrow> date set \<Rightarrow> date \<Rightarrow> weekend_day list \<Rightarrow> py_error + weekend_day list" where
  "weekend_loop end_date booked current days =
     (if current \<le> end_date then
        (let days' = (if weekday current \<in> {4, 5, 6}
                      then days @ [day_entry booked current] else days)
         in case add_days current 1 of
              Inl e \<Rightarrow> Inl e
            | Inr next_day \<Rightarrow> weekend_loop end_date booked next_day days')
      else Inr days)"
  by pat_completeness auto
termination
  by (relation "measure (\<lambda>(end_date, booked, current, days). nat (end_date - current + 1))")
     (auto simp: add_days_def Let_def split: if_splits)

declare weekend_loop.simps [simp del]

definition get_weekend_days_for_year ::
  "cache \<Rightarrow> date \<Rightarrow> string \<Rightarrow> int \<Rightarrow> py_error + weekend_day list" where
  "get_weekend_days_for_year cache today venue year =
     (case mk_date year 1 1 of
        Inl e \<Rightarrow> Inl e
      | Inr jan1 \<Rightarrow>
     (case mk_date year 12 31 of
        Inl e \<Rightarrow> Inl e
      | Inr dec31 \<Rightarrow>
        let start_date = (if year = year_of today then today else jan1);
            lease_end = VENUE_LEASE_END venue;
            end_date = (case lease_end of
                          Some l \<Rightarrow> if dec31 > l then l else dec31
                        | None \<Rightarrow> dec31)
        in case cache venue of
             None \<Rightarrow> Inl KeyError
           | Some entry \<Rightarrow>
               if (case lease_end of Some l \<Rightarrow> start_date > l | None \<Rightarrow> False)
               then Inr []
               else weekend_loop end_date (booked_dates entry) start_date []))"


text \<open>The scan window in the words of the specification: it starts at the later of
  January 1 and today when the requested year is the current year, else at January 1; it
  ends at December 31, clamped down to the venue's lease boundary.\<close>

definition spec_scan_start :: "date \<Rightarrow> int \<Rightarrow> date" where
  "spec_scan_start today year =
     (if year = year_of today then max (ymd2ord year 1 1) today else ymd2ord year 1 1)"

definition spec_scan_end :: "string \<Rightarrow> int \<Rightarrow> date" where
  "spec_scan_end venue year =
     (case VENUE_LEASE_END venue of
        None \<Rightarrow> ymd2ord year 12 31
      | Some l \<Rightarrow> min l (ymd2ord year 12 31))"

text \<open>The record of a projection for a date, looked up by the ISO string that the
  record carries; none when the projection raised or has no record for the date.\<close>

definition record_for :: "string \<Rightarrow> py_error + weekend_day list \<Rightarrow> weekend_day option" where
  "record_for label result =
     (case result of Inl e \<Rightarrow> None | Inr days \<Rightarrow> find (\<lambda>r. date r = label) days)"

definition is_weekend :: "date \<Rightarrow> bool" where
  "is_weekend d \<longleftrightarrow> weekday d \<in> {4, 5, 6}"


text \<open>The dates that an all-day event from \<open>s\<close> to \<open>e\<close> contributes to a fetch with
  the window from \<open>from_date\<close> to \<open>to_date\<close>, in the words of the specification.\<close>

definition spec_event_dates :: "date \<Rightarrow> date \<Rightarrow> date \<times> date \<Rightarrow> date set" where
  "spec_event_dates from_date to_date interval =
     (case interval of (s, e) \<Rightarrow> {d. s \<le> d \<and> d < e \<and> from_date \<le> d \<and> d \<le> to_date})"

text \<open>An event is flagged all-day; its start and end strings; the event is skipped
  because it is not flagged all-day or one of the two strings is missing or empty.\<close>

definition all_day :: "event \<Rightarrow> bool" where
  "all_day ev \<longleftrightarrow> isAllDay ev = Some True"

definition start_str :: "event \<Rightarrow> string" where
  "start_str ev = date_time_str (ev_start ev)"

definition end_str :: "event \<Rightarrow> string" where
  "end_str ev = date_time_str (ev_end ev)"

definition skipped :: "event \<Rightarrow> bool" where
  "skipped ev \<longleftrightarrow> \<not> all_day ev \<or> start_str ev = '''' \<or> end_str ev = ''''"

text \<open>The interval of an event that is not skipped, when both of its strings parse.\<close>

definition event_interval :: "(string \<Rightarrow> date option) \<Rightarrow> event \<Rightarrow> (date \<times> date) option" where
  "event_interval fromisoformat ev =
     (if skipped ev then None
      else
        (case (fromisoformat (replace_Z (start_str ev)), fromisoformat (replace_Z (end_str ev))) of
           (Some s, Some e) \<Rightarrow> Some (s, e)
         | _ \<Rightarrow> None))"

definition parses :: "(string \<Rightarrow> date option) \<Rightarrow> event \<Rightarrow> bool" where
  "parses fromisoformat ev \<longleftrightarrow> skipped ev \<or> event_interval fromisoformat ev \<noteq> None"

definition valid_parser :: "(string \<Rightarrow> date option) \<Rightarrow> bool" where
  "valid_parser fromisoformat \<longleftrightarrow> (\<forall>s d. fromisoformat s = Some d \<longrightarrow> valid_date d)"

text \<open>The events of a page, whether it names a next page, and the booked dates that a
  list of pages amounts to.\<close>

definition page_events :: "page \<Rightarrow> event list" where
  "page_events pg = (case page_value pg of None \<Rightarrow> [] | Some events \<Rightarrow> events)"

definition has_next :: "page \<Rightarrow> bool" where
  "has_next pg \<longleftrightarrow> (case odata_nextLink pg of None \<Rightarrow> False | Some u \<Rightarrow> u \<noteq> '''')"

definition spec_events_dates ::
  "(string \<Rightarrow> date option) \<Rightarrow> date \<Rightarrow> date \<Rightarrow> event list \<Rightarrow> date set" where
  "spec_events_dates fromisoformat from_date to_date events =
     (\<Union>ev \<in> set events.
        case event_interval fromisoformat ev of
          None \<Rightarrow> {}
        | Some interval \<Rightarrow> spec_event_dates from_date to_date interval)"

definition spec_booked_dates ::
  "(string \<Rightarrow> date option) \<Rightarrow> date \<Rightarrow> date \<Rightarrow> page list \<Rightarrow> date set" where
  "spec_booked_dates fromisoformat from_date to_date pages =
     spec_events_dates fromisoformat from_date to_date (concat (map page_events pages))"

text \<open>The requests that reading a list of pages takes, starting at \<open>url\<close>; the URL and
  the query parameters that are current after the pages.\<close>

fun page_requests ::
  "string \<Rightarrow> string option \<Rightarrow> (string \<times> string) list option \<Rightarrow> page list \<Rightarrow> net_call list" where
  "page_requests token url params [] = []"
| "page_requests token url params (pg # pgs) =
     GraphGet (case url of None \<Rightarrow> '''' | Some u \<Rightarrow> u) params token
       # page_requests token (odata_nextLink pg) None pgs"

definition url_after :: "string option \<Rightarrow> page list \<Rightarrow> string option" where
  "url_after url pages = (if pages = [] then url else odata_nextLink (last pages))"

definition params_after ::
  "(string \<times> string) list option \<Rightarrow> page list \<Rightarrow> (string \<times> string) list option" where
  "params_after params pages = (if pages = [] then params else None)"



text \<open>The booked set of a fetch that returned, or the exception that it raised.\<close>

definition returned_dates ::
  "(py_error + (date set \<times> token_state \<times> net_call list)) option \<Rightarrow> (py_error + date set) option" where
  "returned_dates result = map_option (map_sum id fst) result"

text \<open>The exchange at the token endpoint failed: no connection, a status other than
  200, a body that does not parse, or a body without an access token.\<close>

definition exchange_failed :: "token_body http_result \<Rightarrow> bool" where
  "exchange_failed reply =
     (case reply of
        ConnectError \<Rightarrow> True
      | Response status_code body \<Rightarrow>
          status_code \<noteq> 200 \<or>
          (case body of None \<Rightarrow> True | Some data \<Rightarrow> access_token data = None))"


text \<open>The token globals are in order when a stored expiry is a timestamp at which the
  five-minute margin can be subtracted.\<close>

definition token_state_ok :: "token_state \<Rightarrow> bool" where
  "token_state_ok st \<longleftrightarrow>
     (case token_expires_at st of
        None \<Rightarrow> True
      | Some expires \<Rightarrow> 300000000 \<le> expires \<and> expires \<le> DATETIME_MAX)"

text \<open>A parser for closed examples. It reads the date of a timestamp written as
  \<^verbatim>\<open>YYYY-MM-DD\<close> followed by anything, as the provider writes the start and end of all-day
  events (\<^verbatim>\<open>2026-01-20T00:00:00.0000000\<close>). The statements below hold for every parser.\<close>

definition digit_value :: "char \<Rightarrow> int option" where
  "digit_value c = map_of (zip ''0123456789'' [0, 1, 2, 3, 4, 5, 6, 7, 8, 9]) c"

fun digits_value :: "int \<Rightarrow> string \<Rightarrow> int option" where
  "digits_value acc [] = Some acc"
| "digits_value acc (c # cs) =
     (case digit_value c of None \<Rightarrow> None | Some v \<Rightarrow> digits_value (10 * acc + v) cs)"

definition date_of_iso :: "string \<Rightarrow> date option" where
  "date_of_iso s =
     (if length s < 10 \<or> s ! 4 \<noteq> CHR ''-'' \<or> s ! 7 \<noteq> CHR ''-'' then None
      else
        (case (digits_value 0 (take 4 s), digits_value 0 (take 2 (drop 5 s)),
               digits_value 0 (take 2 (drop 8 s))) of
           (Some y, Some m, Some dd) \<Rightarrow>
             (case mk_date y m dd of
                Inl e \<Rightarrow> None
              | Inr d \<Rightarrow> if valid_date d then Some d else None)
         | _ \<Rightarrow> None))"


section \<open>A scenario for closed examples\<close>

text \<open>
  The environment configures a refresh token and the calendar of the garden, but no
  calendar for the ballroom. The token endpoint answers with a token that lasts an hour.
  The event listing has two pages. The first holds an all-day booking from 2026-06-12
  to 2026-06-14 (exclusive), a meeting that is not all-day and an all-day event without
  an end, and names a next page; the second holds an all-day booking of 2026-07-03.
  The clock stands at noon of 2026-06-01.
\<close>

definition example_environ :: environ where
  "example_environ =
     [''MS_CLIENT_ID'' \<mapsto> ''client'', ''MS_CLIENT_SECRET'' \<mapsto> ''secret'',
      ''MS_REFRESH_TOKEN'' \<mapsto> ''refresh'', ''CALENDAR_ID_GARDEN'' \<mapsto> ''garden-calendar'']"

definition example_token_reply :: "token_body http_result" where
  "example_token_reply = Response 200 (Some \<lparr>access_token = Some ''access'', expires_in = Some 3600\<rparr>)"

definition booking_june :: event where
  "booking_june =
     \<lparr>isAllDay = Some True,
      ev_start = Some \<lparr>dateTime = Some ''2026-06-12T00:00:00.0000000''\<rparr>,
      ev_end = Some \<lparr>dateTime = Some ''2026-06-14T00:00:00.0000000''\<rparr>\<rparr>"

definition meeting_june :: event where
  "meeting_june =
     \<lparr>isAllDay = Some False,
      ev_start = Some \<lparr>dateTime = Some ''2026-06-15T10:00:00.0000000''\<rparr>,
      ev_end = Some \<lparr>dateTime = Some ''2026-06-15T11:00:00.0000000''\<rparr>\<rparr>"

definition booking_without_end :: event where
  "booking_without_end =
     \<lparr>isAllDay = Some True,
      ev_start = Some \<lparr>dateTime = Some ''2026-06-20T00:00:00.0000000''\<rparr>,
      ev_end = None\<rparr>"

definition booking_july :: event where
  "booking_july =
     \<lparr>isAllDay = Some True,
      ev_start = Some \<lparr>dateTime = Some ''2026-07-03T00:00:00.0000000''\<rparr>,
      ev_end = Some \<lparr>dateTime = Some ''2026-07-04T00:00:00.0000000''\<rparr>\<rparr>"

definition example_page1 :: page where
  "example_page1 =
     \<lparr>page_value = Some [booking_june, meeting_june, booking_without_end],
      odata_nextLink = Some ''https://graph.microsoft.com/v1.0/me/events?$skip=500''\<rparr>"

definition example_page2 :: page where
  "example_page2 = \<lparr>page_value = Some [booking_july], odata_nextLink = None\<rparr>"

definition example_noon :: datetime where
  "example_noon = (739767 * 86400 + 43200) * 1000000"

definition example_world :: world where
  "example_world =
     \<lparr>environ = example_environ,
      now_check = example_noon,
      token_reply = example_token_reply,
      now_store = example_noon + 1000000,
      graph_replies = [Response 200 (Some example_page1), Response 200 (Some example_page2)],
      date_today = 739768\<rparr>"

text \<open>The same world, but the event listing answers the second request with a server
  error.\<close>

definition failing_world :: world where
  "failing_world =
     example_world\<lparr>graph_replies :=
       [Response 200 (Some example_page1), Response 500 None, Response 200 (Some example_page2)]\<rparr>"




text \<open>The same world, but the event listing answers with a single page: an all-day event
  whose start is not a date, and after it the booking from 2026-06-12 to 2026-06-14.\<close>

definition booking_unparseable :: event where
  "booking_unparseable =
     \<lparr>isAllDay = Some True,
      ev_start = Some \<lparr>dateTime = Some ''not-a-date''\<rparr>,
      ev_end = Some \<lparr>dateTime = Some ''2026-06-11T00:00:00.0000000''\<rparr>\<rparr>"

definition unparseable_page :: page where
  "unparseable_page =
     \<lparr>page_value = Some [booking_unparseable, booking_june], odata_nextLink = None\<rparr>"

definition unparseable_world :: world where
  "unparseable_world = example_world\<lparr>graph_replies := [Response 200 (Some unparseable_page)]\<rparr>"





section \<open>Properties of the date arithmetic\<close>

lemma div_year_parts:
  fixes q a b c :: int
  assumes "0 \<le> a" "a \<le> 3" "0 \<le> b" "b \<le> 24" "0 \<le> c" "c \<le> 3"
  shows "(400 * q + 100 * a + 4 * b + c) div 4 = 100 * q + 25 * a + b"
    and "(400 * q + 100 * a + 4 * b + c) div 100 = 4 * q + a"
    and "(400 * q + 100 * a + 4 * b + c) div 400 = q"
  using assms by arith+

lemma days_before_year_parts:
  fixes q a b c :: int
  assumes "0 \<le> a" "a \<le> 3" "0 \<le> b" "b \<le> 24" "0 \<le> c" "c \<le> 3"
  shows "days_before_year (400 * q + 100 * a + 4 * b + c + 1)
           = 146097 * q + 36524 * a + 1461 * b + 365 * c"
  using div_year_parts [OF assms, of q] by (simp add: days_before_year_def Let_def)

text \<open>The first half of \<^verbatim>\<open>_ord2ymd\<close> splits the days before \<open>d\<close> into 400-year
  cycles, centuries, 4-year cycles and years. The last day of a leap year is the one
  day that the divisions put into the following year, and the code corrects it.\<close>

lemma ord2ymd_cases [case_names normal last_day]:
  obtains
    (normal) q a b c k where
      "d = 146097 * q + 36524 * a + 1461 * b + 365 * c + k + 1"
      "0 \<le> a" "a \<le> 3" "0 \<le> b" "b \<le> 24" "0 \<le> c" "c \<le> 3" "0 \<le> k" "k \<le> 364"
      "ord2ymd d = (400 * q + 100 * a + 4 * b + c + 1, month_day k (c = 3 \<and> (b \<noteq> 24 \<or> a = 3)))"
      "q = (d - 1) div 146097"
  | (last_day) q a b where
      "d = 146097 * q + 36524 * a + 1461 * b + 365 * 3 + 365 + 1"
      "0 \<le> a" "a \<le> 3" "0 \<le> b" "b \<le> 24" "b \<noteq> 24 \<or> a = 3"
      "ord2ymd d = (400 * q + 100 * a + 4 * b + 3 + 1, 12, 31)"
      "q = (d - 1) div 146097"
proof -
  define n where "n = d - 1"
  define q where "q = n div 146097"
  define r where "r = n mod 146097"
  define a where "a = r div 36524"
  define r2 where "r2 = r mod 36524"
  define b where "b = r2 div 1461"
  define r3 where "r3 = r2 mod 1461"
  define c where "c = r3 div 365"
  define k where "k = r3 mod 365"
  have n: "n = 146097 * q + r" "0 \<le> r" "r < 146097"
    by (simp_all add: q_def r_def)
  have r: "r = 36524 * a + r2" "0 \<le> r2" "r2 < 36524"
    by (simp_all add: a_def r2_def)
  have r2: "r2 = 1461 * b + r3" "0 \<le> r3" "r3 < 1461"
    by (simp_all add: b_def r3_def)
  have r3: "r3 = 365 * c + k" "0 \<le> k" "k < 365"
    by (simp_all add: c_def k_def)
  have a_bounds: "0 \<le> a" "a \<le> 4" using r n(2,3) by arith+
  have b_bounds: "0 \<le> b" "b \<le> 24" using r(2,3) r2 by arith+
  have c_bounds: "0 \<le> c" "c \<le> 4" using r2(2,3) r3 by arith+
  have y: "ord2ymd d =
      (if c = 4 \<or> a = 4 then (q * 400 + 1 + a * 100 + b * 4 + c - 1, 12, 31)
       else (q * 400 + 1 + a * 100 + b * 4 + c, month_day k (c = 3 \<and> (b \<noteq> 24 \<or> a = 3))))"
    unfolding ord2ymd_def Let_def n_def q_def r_def a_def r2_def b_def r3_def c_def k_def ..
  have d: "d = n + 1" by (simp add: n_def)
  show thesis
  proof (cases "a = 4")
    case True
    then have z: "r2 = 0" using n(2,3) r by arith
    then have "b = 0" "r3 = 0" by (simp_all add: b_def r3_def)
    then have "c = 0" by (simp add: c_def)
    show thesis
    proof (rule last_day [of q 3 24])
      show "d = 146097 * q + 36524 * 3 + 1461 * 24 + 365 * 3 + 365 + 1"
        using d n(1) r(1) z True by simp
      show "ord2ymd d = (400 * q + 100 * 3 + 4 * 24 + 3 + 1, 12, 31)"
        using y True \<open>b = 0\<close> \<open>c = 0\<close> by simp
      show "q = (d - 1) div 146097" by (simp add: q_def n_def)
    qed simp_all
  next
    case False
    then have a3: "a \<le> 3" using a_bounds by simp
    show thesis
    proof (cases "c = 4")
      case True
      then have k0: "k = 0" "r3 = 1460" using r3 r2(3) by arith+
      then have b23: "b \<le> 23" using r2(1) r(3) by arith
      show thesis
      proof (rule last_day [of q a b])
        show "d = 146097 * q + 36524 * a + 1461 * b + 365 * 3 + 365 + 1"
          using d n(1) r(1) r2(1) k0 by simp
        show "ord2ymd d = (400 * q + 100 * a + 4 * b + 3 + 1, 12, 31)"
          using y True by simp
        show "q = (d - 1) div 146097" by (simp add: q_def n_def)
        show "b \<noteq> 24 \<or> a = 3" using b23 by simp
      qed (use a_bounds a3 b_bounds in simp_all)
    next
      case c4: False
      then have c3: "c \<le> 3" using c_bounds by simp
      show thesis
      proof (rule normal [of q a b c k])
        show "d = 146097 * q + 36524 * a + 1461 * b + 365 * c + k + 1"
          using d n(1) r(1) r2(1) r3(1) by simp
        show "ord2ymd d = (400 * q + 100 * a + 4 * b + c + 1,
                 month_day k (c = 3 \<and> (b \<noteq> 24 \<or> a = 3)))"
          using y False c4 by (simp add: algebra_simps)
        show "q = (d - 1) div 146097" by (simp add: q_def n_def)
        show "k \<le> 364" using r3(3) by simp
      qed (use a_bounds a3 b_bounds c_bounds c3 r3(2) in simp_all)
    qed
  qed
qed

lemma mod_zero_upto:
  fixes x N :: int
  assumes "0 < x" "x \<le> N"
  shows "x mod N = 0 \<longleftrightarrow> x = N"
proof (cases "x = N")
  case True
  then show ?thesis by simp
next
  case False
  with assms have "x mod N = x" by simp
  with False assms show ?thesis by simp
qed

lemma last_of_century:
  fixes b c :: int
  assumes "0 \<le> b" "b \<le> 24" "0 \<le> c" "c \<le> 3"
  shows "4 * b + c + 1 = 100 \<longleftrightarrow> b = 24 \<and> c = 3"
proof
  assume eq: "4 * b + c + 1 = 100"
  then have "b = 24" using assms by linarith
  with eq show "b = 24 \<and> c = 3" by simp
qed simp

lemma last_of_cycle:
  fixes a b c :: int
  assumes "0 \<le> a" "a \<le> 3" "0 \<le> b" "b \<le> 24" "0 \<le> c" "c \<le> 3"
  shows "100 * a + 4 * b + c + 1 = 400 \<longleftrightarrow> a = 3 \<and> b = 24 \<and> c = 3"
proof
  assume eq: "100 * a + 4 * b + c + 1 = 400"
  then have "a = 3" using assms by linarith
  with eq have "4 * b + c + 1 = 100" by simp
  then have "b = 24 \<and> c = 3" using last_of_century [OF assms(3-6)] by blast
  with \<open>a = 3\<close> show "a = 3 \<and> b = 24 \<and> c = 3" by simp
qed simp

lemma is_leap_parts:
  fixes q a b c :: int
  assumes "0 \<le> a" "a \<le> 3" "0 \<le> b" "b \<le> 24" "0 \<le> c" "c \<le> 3"
  shows "is_leap (400 * q + 100 * a + 4 * b + c + 1) \<longleftrightarrow> c = 3 \<and> (b \<noteq> 24 \<or> a = 3)"
proof -
  let ?y = "400 * q + 100 * a + 4 * b + c + 1"
  have "?y = (c + 1) + 4 * (100 * q + 25 * a + b)" by simp
  then have "?y mod 4 = (c + 1) mod 4" by (simp only: mod_mult_self2)
  also have "\<dots> = 0 \<longleftrightarrow> c + 1 = 4" using assms(5,6) by (intro mod_zero_upto) simp_all
  finally have m4: "?y mod 4 = 0 \<longleftrightarrow> c = 3" by simp
  have "?y = (4 * b + c + 1) + 100 * (4 * q + a)" by simp
  then have "?y mod 100 = (4 * b + c + 1) mod 100" by (simp only: mod_mult_self2)
  also have "\<dots> = 0 \<longleftrightarrow> 4 * b + c + 1 = 100" using assms(3-6) by (intro mod_zero_upto) simp_all
  also have "\<dots> \<longleftrightarrow> b = 24 \<and> c = 3" using assms(3-6) by (rule last_of_century)
  finally have m100: "?y mod 100 = 0 \<longleftrightarrow> b = 24 \<and> c = 3" .
  have "?y = (100 * a + 4 * b + c + 1) + 400 * q" by simp
  then have "?y mod 400 = (100 * a + 4 * b + c + 1) mod 400" by (simp only: mod_mult_self2)
  also have "\<dots> = 0 \<longleftrightarrow> 100 * a + 4 * b + c + 1 = 400"
    using assms by (intro mod_zero_upto) simp_all
  also have "\<dots> \<longleftrightarrow> a = 3 \<and> b = 24 \<and> c = 3" using assms by (rule last_of_cycle)
  finally have m400: "?y mod 400 = 0 \<longleftrightarrow> a = 3 \<and> b = 24 \<and> c = 3" .
  show ?thesis unfolding is_leap_def m4 m100 m400 by blast
qed

lemma month_day_table:
  "list_all (\<lambda>n. \<forall>leap \<in> {True, False}.
      case month_day n leap of (m, dd) \<Rightarrow>
        1 \<le> m \<and> m \<le> 12 \<and> 1 \<le> dd \<and> dd \<le> 31 \<and>
        DAYS_BEFORE_MONTH ! nat m + (if m > 2 \<and> leap then 1 else 0) + dd = n + 1) [0..364]"
  by code_simp

lemma month_day_inverse:
  assumes "0 \<le> n" "n \<le> 364" "month_day n leap = (m, dd)"
  shows "1 \<le> m" "m \<le> 12" "1 \<le> dd" "dd \<le> 31"
    "DAYS_BEFORE_MONTH ! nat m + (if m > 2 \<and> leap then 1 else 0) + dd = n + 1"
proof -
  have n: "n \<in> {0..364}" and leap: "leap \<in> {True, False}" using assms(1,2) by simp_all
  note table = month_day_table [unfolded list_all_iff set_upto]
  have "case month_day n leap of (m, dd) \<Rightarrow>
        1 \<le> m \<and> m \<le> 12 \<and> 1 \<le> dd \<and> dd \<le> 31 \<and>
        DAYS_BEFORE_MONTH ! nat m + (if m > 2 \<and> leap then 1 else 0) + dd = n + 1"
    by (rule bspec [OF bspec [OF table n] leap])
  then show "1 \<le> m" "m \<le> 12" "1 \<le> dd" "dd \<le> 31"
    "DAYS_BEFORE_MONTH ! nat m + (if m > 2 \<and> leap then 1 else 0) + dd = n + 1"
    unfolding assms(3) by simp_all
qed

text \<open>Converting an ordinal to year, month and day and back gives the ordinal.\<close>

lemma ord2ymd_inverse:
  assumes "ord2ymd d = (y, m, dd)"
  shows "ymd2ord y m dd = d" and "1 \<le> m" and "m \<le> 12" and "1 \<le> dd" and "dd \<le> 31"
proof -
  have "ymd2ord y m dd = d \<and> 1 \<le> m \<and> m \<le> 12 \<and> 1 \<le> dd \<and> dd \<le> 31"
  proof (cases d rule: ord2ymd_cases)
    case (normal q a b c k)
    let ?leap = "c = 3 \<and> (b \<noteq> 24 \<or> a = 3)"
    have y: "y = 400 * q + 100 * a + 4 * b + c + 1" and md: "month_day k ?leap = (m, dd)"
      using assms normal(10) by simp_all
    note table = month_day_inverse [OF normal(8,9) md]
    have leap: "is_leap y \<longleftrightarrow> ?leap"
      unfolding y using normal(2-7) by (rule is_leap_parts)
    have dby: "days_before_year y = 146097 * q + 36524 * a + 1461 * b + 365 * c"
      unfolding y using normal(2-7) by (rule days_before_year_parts)
    have "ymd2ord y m dd = d"
      using table(5) normal(1) by (simp add: ymd2ord_def days_before_month_def leap dby)
    with table show ?thesis by simp
  next
    case (last_day q a b)
    have y: "y = 400 * q + 100 * a + 4 * b + 3 + 1" and md: "m = 12" "dd = 31"
      using assms last_day(7) by simp_all
    have leap: "is_leap y"
      unfolding y using is_leap_parts [of a b 3 q] last_day(2-6) by simp
    have dby: "days_before_year y = 146097 * q + 36524 * a + 1461 * b + 365 * 3"
      unfolding y using last_day(2-5) by (intro days_before_year_parts) simp_all
    show ?thesis
      using last_day(1) leap
      by (simp add: md ymd2ord_def days_before_month_def DAYS_BEFORE_MONTH_def dby)
  qed
  then show "ymd2ord y m dd = d" and "1 \<le> m" and "m \<le> 12" and "1 \<le> dd" and "dd \<le> 31"
    by simp_all
qed

lemma year_of_range:
  assumes "valid_date d"
  shows "1 \<le> year_of d" and "year_of d \<le> 9999"
proof -
  have d: "1 \<le> d" "d \<le> 3652059" using assms by (simp_all add: valid_date_def MAXORDINAL_def)
  have "1 \<le> year_of d \<and> year_of d \<le> 9999"
  proof (cases d rule: ord2ymd_cases)
    case (normal q a b c k)
    have q: "0 \<le> q" "q \<le> 24"
      using d unfolding normal(11) by arith+
    have y: "year_of d = 400 * q + 100 * a + 4 * b + c + 1"
      by (simp add: year_of_def normal(10))
    have "\<not> (q = 24 \<and> a = 3 \<and> b = 24 \<and> c = 3)"
      using d(2) normal(1,8) by auto
    then have "400 * q + 100 * a + 4 * b + c \<le> 9998"
      using q normal(2-7) by linarith
    then show ?thesis using y q normal(2-7) by simp
  next
    case (last_day q a b)
    have q: "0 \<le> q" "q \<le> 24"
      using d unfolding last_day(8) by arith+
    have y: "year_of d = 400 * q + 100 * a + 4 * b + 3 + 1"
      by (simp add: year_of_def last_day(7))
    have "\<not> (q = 24 \<and> a = 3 \<and> b = 24)"
      using d(2) last_day(1) by auto
    then have "400 * q + 100 * a + 4 * b \<le> 9995"
      using q last_day(2-5) by linarith
    then show ?thesis using y q last_day(2-5) by simp
  qed
  then show "1 \<le> year_of d" and "year_of d \<le> 9999" by simp_all
qed

lemma digit_char_inj:
  assumes "0 \<le> a" "a \<le> 9" "0 \<le> b" "b \<le> 9" "digit_char a = digit_char b"
  shows "a = b"
proof -
  have "distinct ''0123456789''" by simp
  moreover have "nat a < length ''0123456789''" "nat b < length ''0123456789''"
    using assms(1-4) by simp_all
  ultimately have "nat a = nat b"
    using assms(5) unfolding digit_char_def by (simp only: nth_eq_iff_index_eq)
  with assms(1,3) show ?thesis by simp
qed

lemma digit_char_mod_inj:
  fixes x y :: int
  assumes "digit_char (x mod 10) = digit_char (y mod 10)"
  shows "x mod 10 = y mod 10"
  using assms by (intro digit_char_inj) simp_all

lemma last_digit_eq:
  fixes x y :: int
  assumes "x div 10 = y div 10" "x mod 10 = y mod 10"
  shows "x = y"
  using assms by (metis mult_div_mod_eq)

lemma pad2_inj:
  assumes "0 \<le> m" "m \<le> 99" "0 \<le> n" "n \<le> 99" "pad2 m = pad2 n"
  shows "m = n"
proof -
  have chars: "digit_char (m div 10 mod 10) = digit_char (n div 10 mod 10)"
    "digit_char (m mod 10) = digit_char (n mod 10)"
    using assms(5) by (simp_all add: pad2_def)
  note hi = chars(1) [THEN digit_char_mod_inj] and lo = chars(2) [THEN digit_char_mod_inj]
  have "m div 10 < 10" "0 \<le> m div 10" using assms(1,2) by arith+
  moreover have "n div 10 < 10" "0 \<le> n div 10" using assms(3,4) by arith+
  ultimately have "m div 10 = n div 10" using hi by simp
  then show ?thesis using lo by (rule last_digit_eq)
qed

lemma pad4_inj:
  assumes "0 \<le> m" "m \<le> 9999" "0 \<le> n" "n \<le> 9999" "pad4 m = pad4 n"
  shows "m = n"
proof -
  have chars: "digit_char (m div 1000 mod 10) = digit_char (n div 1000 mod 10)"
    "digit_char (m div 100 mod 10) = digit_char (n div 100 mod 10)"
    "digit_char (m div 10 mod 10) = digit_char (n div 10 mod 10)"
    "digit_char (m mod 10) = digit_char (n mod 10)"
    using assms(5) by (simp_all add: pad4_def)
  note digits = chars [THEN digit_char_mod_inj]
  have nest: "x div 100 = x div 10 div 10" "x div 1000 = x div 100 div 10" for x :: int
    using zdiv_zmult2_eq [of 10 x 10] zdiv_zmult2_eq [of 10 x 100] by simp_all
  have "m div 1000 < 10" "0 \<le> m div 1000" using assms(1,2) by arith+
  moreover have "n div 1000 < 10" "0 \<le> n div 1000" using assms(3,4) by arith+
  ultimately have "m div 1000 = n div 1000" using digits(1) by simp
  then have "m div 100 div 10 = n div 100 div 10" by (simp only: nest)
  then have "m div 100 = n div 100" using digits(2) by (rule last_digit_eq)
  then have "m div 10 div 10 = n div 10 div 10" by (simp only: nest)
  then have "m div 10 = n div 10" using digits(3) by (rule last_digit_eq)
  then show ?thesis using digits(4) by (rule last_digit_eq)
qed

text \<open>Distinct dates have distinct ISO strings.\<close>

lemma isoformat_inj:
  assumes "valid_date d" "valid_date d'" "isoformat d = isoformat d'"
  shows "d = d'"
proof -
  obtain y m dd where ymd: "ord2ymd d = (y, m, dd)" by (cases "ord2ymd d") auto
  obtain y' m' dd' where ymd': "ord2ymd d' = (y', m', dd')" by (cases "ord2ymd d'") auto
  note inv = ord2ymd_inverse [OF ymd] and inv' = ord2ymd_inverse [OF ymd']
  have y: "1 \<le> y" "y \<le> 9999"
    using year_of_range [OF assms(1)] by (simp_all add: year_of_def ymd)
  have y': "1 \<le> y'" "y' \<le> 9999"
    using year_of_range [OF assms(2)] by (simp_all add: year_of_def ymd')
  have "pad4 y @ ''-'' @ pad2 m @ ''-'' @ pad2 dd = pad4 y' @ ''-'' @ pad2 m' @ ''-'' @ pad2 dd'"
    using assms(3) by (simp add: isoformat_def ymd ymd')
  then have parts: "pad4 y = pad4 y'" "pad2 m = pad2 m'" "pad2 dd = pad2 dd'"
    by (simp_all add: pad4_def pad2_def)
  have "y = y'" using y y' parts(1) by (intro pad4_inj) simp_all
  moreover have "m = m'" using inv(2,3) inv'(2,3) parts(2) by (intro pad2_inj) simp_all
  moreover have "dd = dd'" using inv(4,5) inv'(4,5) parts(3) by (intro pad2_inj) simp_all
  ultimately show ?thesis using inv(1) inv'(1) by simp
qed

text \<open>A date lies after the last day of the year before its own year.\<close>

lemma year_of_starts_before:
  "days_before_year (year_of d) < d"
proof (cases d rule: ord2ymd_cases)
  case (normal q a b c k)
  have "days_before_year (year_of d) = 146097 * q + 36524 * a + 1461 * b + 365 * c"
    unfolding year_of_def normal(10) fst_conv using normal(2-7) by (rule days_before_year_parts)
  with normal(1,8) show ?thesis by simp
next
  case (last_day q a b)
  have "days_before_year (year_of d) = 146097 * q + 36524 * a + 1461 * b + 365 * 3"
    unfolding year_of_def last_day(7) fst_conv
    using last_day(2-5) by (intro days_before_year_parts) simp_all
  with last_day(1) show ?thesis by simp
qed

lemma days_before_year_nonneg: "1 \<le> year \<Longrightarrow> 0 \<le> days_before_year year"
proof -
  assume "1 \<le> year"
  then have y: "0 \<le> year - 1" by simp
  have "(year - 1) div 100 \<le> (year - 1) div 4"
    using y by (intro zdiv_mono2) simp_all
  moreover have "0 \<le> (year - 1) div 400" using y by simp
  ultimately show ?thesis using y by (simp add: days_before_year_def Let_def)
qed

lemma ymd2ord_jan1: "ymd2ord year 1 1 = days_before_year year + 1"
  by (simp add: ymd2ord_def days_before_month_def DAYS_BEFORE_MONTH_def)

lemma mk_date_jan1:
  "1 \<le> year \<Longrightarrow> year \<le> 9999 \<Longrightarrow> mk_date year 1 1 = Inr (ymd2ord year 1 1)"
  by (simp add: mk_date_def days_in_month_def DAYS_IN_MONTH_def)

lemma mk_date_dec31:
  "1 \<le> year \<Longrightarrow> year \<le> 9999 \<Longrightarrow> mk_date year 12 31 = Inr (ymd2ord year 12 31)"
  by (simp add: mk_date_def days_in_month_def DAYS_IN_MONTH_def)

lemma year_start_le_today: "year = year_of today \<Longrightarrow> ymd2ord year 1 1 \<le> today"
  using year_of_starts_before [of today] by (simp add: ymd2ord_jan1)

lemma lease_2030: "ymd2ord 2030 3 31 = 741167"
  by (simp add: ymd2ord_def days_before_year_def days_before_month_def
      DAYS_BEFORE_MONTH_def is_leap_def)

lemma VENUE_LEASE_END_cases:
  "VENUE_LEASE_END venue = None \<or> VENUE_LEASE_END venue = Some 741167"
  by (simp add: VENUE_LEASE_END_def lease_2030)


section \<open>Properties of the availability projection\<close>

lemma weekend_loop_empty:
  "end_date < current \<Longrightarrow> weekend_loop end_date booked current days = Inr days"
  by (simp add: weekend_loop.simps [of end_date booked current days])

lemma weekend_loop_walk:
  "0 \<le> current \<Longrightarrow> end_date < MAXORDINAL \<Longrightarrow>
   weekend_loop end_date booked current days =
     Inr (days @ map (day_entry booked) (filter is_weekend [current..end_date]))"
proof (induction end_date booked current days rule: weekend_loop.induct)
  case (1 end_date booked current days)
  show ?case
  proof (cases "current \<le> end_date")
    case False
    then show ?thesis by (simp add: weekend_loop.simps [of end_date booked current days])
  next
    case True
    have step: "add_days current 1 = Inr (current + 1)"
      using True "1.prems" by (simp add: add_days_def)
    have up: "[current..end_date] = current # [current + 1..end_date]"
      using True by (simp add: upto_rec1)
    show ?thesis
      using True "1.prems" "1.IH" [OF True refl step]
      by (simp add: weekend_loop.simps [of end_date booked current days] step up is_weekend_def)
  qed
qed


text \<open>The start of the scan window as the code computes it agrees with the
  specification's \<open>max\<close>: today is never before January 1 of its own year.\<close>

lemma spec_scan_start_code:
  "spec_scan_start today year = (if year = year_of today then today else ymd2ord year 1 1)"
  using year_start_le_today [of year today] by (simp add: spec_scan_start_def)


lemma get_weekend_days_for_year_unfold:
  assumes year: "1 \<le> year" "year \<le> 9999"
    and entry: "cache venue = Some entry"
  shows "get_weekend_days_for_year cache today venue year =
     (if (case VENUE_LEASE_END venue of
            Some l \<Rightarrow> spec_scan_start today year > l | None \<Rightarrow> False)
      then Inr []
      else weekend_loop (spec_scan_end venue year) (booked_dates entry)
             (spec_scan_start today year) [])"
proof -
  have e: "(case VENUE_LEASE_END venue of
              Some l \<Rightarrow> if ymd2ord year 12 31 > l then l else ymd2ord year 12 31
            | None \<Rightarrow> ymd2ord year 12 31) = spec_scan_end venue year"
    by (simp add: spec_scan_end_def min_def split: option.split)
  show ?thesis
    unfolding get_weekend_days_for_year_def mk_date_jan1 [OF year] mk_date_dec31 [OF year]
      sum.case Let_def e entry option.case spec_scan_start_code ..
qed

lemma spec_scan_start_nonneg:
  "1 \<le> year \<Longrightarrow> valid_date today \<Longrightarrow> 0 \<le> spec_scan_start today year"
  using days_before_year_nonneg [of year]
  by (simp add: spec_scan_start_code valid_date_def ymd2ord_jan1)

text \<open>The projection is the walk over the scan window: one entry for each Friday,
  Saturday and Sunday of the window, in ascending order. The walk raises
  \<^verbatim>\<open>OverflowError\<close> only when the window ends on the last representable date.\<close>

lemma get_weekend_days_for_year_walk:
  assumes year: "1 \<le> year" "year \<le> 9999"
    and entry: "cache venue = Some entry"
    and today: "valid_date today"
    and fits: "spec_scan_end venue year < spec_scan_start today year
                 \<or> spec_scan_end venue year < MAXORDINAL"
  shows "get_weekend_days_for_year cache today venue year =
           Inr (map (day_entry (booked_dates entry))
                  (filter is_weekend [spec_scan_start today year..spec_scan_end venue year]))"
proof -
  let ?start = "spec_scan_start today year" and ?end = "spec_scan_end venue year"
  have loop: "weekend_loop ?end (booked_dates entry) ?start [] =
                Inr (map (day_entry (booked_dates entry)) (filter is_weekend [?start..?end]))"
  proof (cases "?end < ?start")
    case True
    then show ?thesis by (simp add: weekend_loop_empty)
  next
    case False
    with fits have "?end < MAXORDINAL" by simp
    with spec_scan_start_nonneg [OF year(1) today] show ?thesis
      by (simp add: weekend_loop_walk)
  qed
  note unfold =
    get_weekend_days_for_year_unfold [where cache = cache and venue = venue, OF year entry]
  show ?thesis
  proof (cases "case VENUE_LEASE_END venue of Some l \<Rightarrow> ?start > l | None \<Rightarrow> False")
    case True
    then have "?end < ?start"
      by (simp add: spec_scan_end_def split: option.splits)
    with True show ?thesis
      by (simp add: unfold)
  next
    case False
    with loop show ?thesis
      by (simp add: unfold)
  qed
qed

lemma ymd2ord_values:
  "ymd2ord 2030 12 31 = 741442" "ymd2ord 2031 1 1 = 741443" "ymd2ord 2031 12 31 = 741807"
  "ymd2ord 2026 1 1 = 739617" "ymd2ord 2026 12 31 = 739981"
  "ymd2ord 2026 6 12 = 739779" "ymd2ord 2026 6 13 = 739780"
  by (simp_all add: ymd2ord_def days_before_year_def days_before_month_def
      DAYS_BEFORE_MONTH_def is_leap_def)

lemma find_append:
  "find P (xs @ ys) = (case find P xs of None \<Rightarrow> find P ys | Some x \<Rightarrow> Some x)"
  by (induction xs) auto

text \<open>Looking a date of the window up by its ISO string finds the entry that the walk
  made for that date.\<close>

lemma find_day_entry:
  assumes "valid_date start" "start \<le> d0" "d0 \<le> end_date" "valid_date d0" "is_weekend d0"
  shows "find (\<lambda>r. date r = isoformat d0)
           (map (day_entry booked) (filter is_weekend [start..end_date]))
         = Some (day_entry booked d0)"
proof -
  have split: "[start..end_date] = [start..d0 - 1] @ d0 # [d0 + 1..end_date]"
    using assms(2,3) by (rule upto_split3)
  have "isoformat d \<noteq> isoformat d0" if "start \<le> d" "d \<le> d0 - 1" for d
  proof
    assume eq: "isoformat d = isoformat d0"
    have "valid_date d" using that assms(1,4) by (simp add: valid_date_def)
    then have "d = d0" using assms(4) eq by (rule isoformat_inj)
    with that show False by simp
  qed
  then have none: "find (\<lambda>r. date r = isoformat d0)
      (map (day_entry booked) (filter is_weekend [start..d0 - 1])) = None"
    by (auto simp: find_None_iff day_entry_def)
  show ?thesis
    using assms(5) by (simp add: split find_append none day_entry_def)
qed

lemma iso_june_2026:
  "isoformat 739780 = ''2026-06-13''" "isoformat 739781 = ''2026-06-14''"
  "isoformat 739786 = ''2026-06-19''"
  by code_simp+

lemma june_2026_weekend: "is_weekend 739780" "is_weekend 739781" "is_weekend 739786"
  by (simp_all add: is_weekend_def weekday_def)

lemma june_2026_entries:
  "day_entry {739779, 739780} 739780 = \<lparr>date = ''2026-06-13'', day = ''saturday'', available = False\<rparr>"
  "day_entry {739779, 739780} 739781 = \<lparr>date = ''2026-06-14'', day = ''sunday'', available = True\<rparr>"
  "day_entry {739779, 739780} 739786 = \<lparr>date = ''2026-06-19'', day = ''friday'', available = True\<rparr>"
  by (simp_all add: day_entry_def iso_june_2026 day_name_def weekday_def)

lemma june_2026_projection:
  assumes entry: "cache venue = Some entry"
    and booked: "booked_dates entry = {ymd2ord 2026 6 12, ymd2ord 2026 6 13}"
    and today: "valid_date today" "today \<le> ymd2ord 2026 6 13"
  shows "record_for ''2026-06-13'' (get_weekend_days_for_year cache today venue 2026)
           = Some \<lparr>date = ''2026-06-13'', day = ''saturday'', available = False\<rparr>"
    and "record_for ''2026-06-14'' (get_weekend_days_for_year cache today venue 2026)
           = Some \<lparr>date = ''2026-06-14'', day = ''sunday'', available = True\<rparr>"
    and "record_for ''2026-06-19'' (get_weekend_days_for_year cache today venue 2026)
           = Some \<lparr>date = ''2026-06-19'', day = ''friday'', available = True\<rparr>"
proof -
  let ?start = "spec_scan_start today 2026" and ?end = "spec_scan_end venue 2026"
  have e: "?end = 739981"
    using VENUE_LEASE_END_cases [of venue] by (auto simp: spec_scan_end_def ymd2ord_values)
  have s: "valid_date ?start" "?start \<le> 739780"
    using today by (auto simp: spec_scan_start_code ymd2ord_values valid_date_def MAXORDINAL_def)
  have b: "booked_dates entry = {739779, 739780}"
    using booked by (simp add: ymd2ord_values)
  have res: "get_weekend_days_for_year cache today venue 2026 =
      Inr (map (day_entry {739779, 739780}) (filter is_weekend [?start..739981]))"
    using get_weekend_days_for_year_walk [where cache = cache and venue = venue,
        OF _ _ entry today(1), of 2026]
    by (simp add: e b MAXORDINAL_def)
  have f: "find (\<lambda>r. date r = isoformat d0)
             (map (day_entry {739779, 739780}) (filter is_weekend [?start..739981]))
           = Some (day_entry {739779, 739780} d0)"
    if "739780 \<le> d0" "d0 \<le> 739981" "is_weekend d0" for d0
    using s that by (intro find_day_entry) (simp_all add: valid_date_def MAXORDINAL_def)
  show "record_for ''2026-06-13'' (get_weekend_days_for_year cache today venue 2026)
           = Some \<lparr>date = ''2026-06-13'', day = ''saturday'', available = False\<rparr>"
    using f [of 739780] by (simp add: record_for_def res iso_june_2026 june_2026_weekend june_2026_entries)
  show "record_for ''2026-06-14'' (get_weekend_days_for_year cache today venue 2026)
           = Some \<lparr>date = ''2026-06-14'', day = ''sunday'', available = True\<rparr>"
    using f [of 739781] by (simp add: record_for_def res iso_june_2026 june_2026_weekend june_2026_entries)
  show "record_for ''2026-06-19'' (get_weekend_days_for_year cache today venue 2026)
           = Some \<lparr>date = ''2026-06-19'', day = ''friday'', available = True\<rparr>"
    using f [of 739786] by (simp add: record_for_def res iso_june_2026 june_2026_weekend june_2026_entries)
qed


section \<open>Properties of the event fetcher\<close>

lemma add_event_dates_eq:
  "0 \<le> current \<Longrightarrow> event_end \<le> MAXORDINAL \<Longrightarrow>
   add_event_dates start_date end_date event_end current booked =
     (None, booked \<union> {d. current \<le> d \<and> d < event_end \<and> start_date \<le> d \<and> d \<le> end_date})"
proof (induction start_date end_date event_end current booked rule: add_event_dates.induct)
  case (1 start_date end_date event_end current booked)
  show ?case
  proof (cases "current < event_end")
    case False
    then show ?thesis
      by (auto simp: add_event_dates.simps [of start_date end_date event_end current booked])
  next
    case True
    have step: "add_days current 1 = Inr (current + 1)"
      using True "1.prems" by (simp add: add_days_def)
    have range: "{d. current \<le> d \<and> d < event_end \<and> start_date \<le> d \<and> d \<le> end_date} =
        (if start_date \<le> current \<and> current \<le> end_date then {current} else {}) \<union>
        {d. current + 1 \<le> d \<and> d < event_end \<and> start_date \<le> d \<and> d \<le> end_date}"
      using True by auto
    show ?thesis
      using True "1.prems" "1.IH" [OF True refl step]
      by (simp add: add_event_dates.simps [of start_date end_date event_end current booked]
          step range Un_assoc)
  qed
qed

lemma process_event_skipped:
  "skipped ev \<Longrightarrow> process_event p start_date end_date ev booked = (None, booked)"
  by (auto simp: skipped_def all_day_def start_str_def end_str_def process_event_def Let_def
      split: option.splits)

lemma process_event_eq:
  assumes "valid_parser p" "parses p ev"
  shows "process_event p start_date end_date ev booked =
     (None, booked \<union> (case event_interval p ev of
                          None \<Rightarrow> {}
                        | Some interval \<Rightarrow> spec_event_dates start_date end_date interval))"
proof (cases "skipped ev")
  case True
  then show ?thesis by (simp add: process_event_skipped event_interval_def)
next
  case False
  with assms(2) obtain s e where iv: "event_interval p ev = Some (s, e)"
    by (auto simp: parses_def)
  then have parsed: "p (replace_Z (start_str ev)) = Some s" "p (replace_Z (end_str ev)) = Some e"
    using False by (auto simp: event_interval_def split: option.splits)
  then have "valid_date s" "valid_date e"
    using assms(1) unfolding valid_parser_def by blast+
  then have valid: "0 \<le> s" "e \<le> MAXORDINAL"
    by (simp_all add: valid_date_def)
  have "process_event p start_date end_date ev booked =
          add_event_dates start_date end_date e s booked"
    using False parsed
    by (auto simp: skipped_def all_day_def start_str_def end_str_def process_event_def Let_def
        split: option.splits)
  then show ?thesis
    using valid by (simp add: add_event_dates_eq iv spec_event_dates_def)
qed

lemma process_events_eq:
  assumes "valid_parser p" "\<forall>ev \<in> set events. parses p ev"
  shows "process_events p start_date end_date events booked =
           (None, booked \<union> spec_events_dates p start_date end_date events)"
  using assms(2)
proof (induction events arbitrary: booked)
  case Nil
  then show ?case by (simp add: spec_events_dates_def)
next
  case (Cons ev events)
  then show ?case
    using assms(1) by (simp add: process_event_eq spec_events_dates_def Un_assoc)
qed


lemma page_loop_done:
  "(case url of None \<Rightarrow> True | Some u \<Rightarrow> u = '''') \<Longrightarrow>
   page_loop p start_date end_date token replies url params booked sent = Some (booked, sent)"
  by (cases replies) (auto split: option.splits)

lemma page_loop_ok_page:
  assumes "valid_parser p" "\<forall>ev \<in> set (page_events pg). parses p ev" "u \<noteq> ''''"
  shows "page_loop p start_date end_date token (Response 200 (Some pg) # replies) (Some u)
           params booked sent =
         page_loop p start_date end_date token replies (odata_nextLink pg) None
           (booked \<union> spec_events_dates p start_date end_date (page_events pg))
           (sent @ [GraphGet u params token])"
  using assms(3) process_events_eq [OF assms(1,2), of start_date end_date booked]
  by (simp add: page_events_def Let_def)

lemma page_loop_error:
  assumes "u \<noteq> ''''" "status_code \<noteq> 200"
  shows "page_loop p start_date end_date token (Response status_code body # replies) (Some u)
           params booked sent = Some (booked, sent @ [GraphGet u params token])"
  using assms by (simp add: Let_def)

lemma page_loop_connect_error:
  assumes "u \<noteq> ''''"
  shows "page_loop p start_date end_date token (ConnectError # replies) (Some u)
           params booked sent = Some (booked, sent @ [GraphGet u params token])"
  using assms by (simp add: Let_def)

lemma spec_booked_dates_Cons:
  "spec_booked_dates p s e (pg # pages) =
     spec_events_dates p s e (page_events pg) \<union> spec_booked_dates p s e pages"
  by (simp add: spec_booked_dates_def spec_events_dates_def)

lemma spec_booked_dates_Nil: "spec_booked_dates p s e [] = {}"
  by (simp add: spec_booked_dates_def spec_events_dates_def)

lemma page_loop_pages:
  assumes "valid_parser p"
  shows "\<forall>pg \<in> set pages. \<forall>ev \<in> set (page_events pg). parses p ev \<Longrightarrow>
    \<forall>pg \<in> set (butlast pages). has_next pg \<Longrightarrow>
    (case url of None \<Rightarrow> False | Some u \<Rightarrow> u \<noteq> '''') \<Longrightarrow>
    page_loop p start_date end_date token (map (\<lambda>pg. Response 200 (Some pg)) pages @ replies)
      url params booked sent =
    page_loop p start_date end_date token replies (url_after url pages) (params_after params pages)
      (booked \<union> spec_booked_dates p start_date end_date pages)
      (sent @ page_requests token url params pages)"
proof (induction pages arbitrary: url params booked sent)
  case Nil
  then show ?case by (simp add: url_after_def params_after_def spec_booked_dates_Nil)
next
  case (Cons pg pages)
  from Cons.prems(3) obtain u where u: "url = Some u" "u \<noteq> ''''"
    by (auto split: option.splits)
  have step: "page_loop p start_date end_date token
       (Response 200 (Some pg) # map (\<lambda>pg. Response 200 (Some pg)) pages @ replies) (Some u)
       params booked sent =
     page_loop p start_date end_date token (map (\<lambda>pg. Response 200 (Some pg)) pages @ replies)
       (odata_nextLink pg) None
       (booked \<union> spec_events_dates p start_date end_date (page_events pg))
       (sent @ [GraphGet u params token])"
    using Cons.prems(1) u(2) by (intro page_loop_ok_page [OF assms]) simp_all
  show ?case
  proof (cases pages)
    case Nil
    then show ?thesis
      using step u
      by (simp add: url_after_def params_after_def spec_booked_dates_Cons spec_booked_dates_Nil)
  next
    case (Cons pg' pages')
    then have "has_next pg" using Cons.prems(2) by simp
    then have next_ok: "case odata_nextLink pg of None \<Rightarrow> False | Some u \<Rightarrow> u \<noteq> ''''"
      by (simp add: has_next_def)
    have IH: "page_loop p start_date end_date token
        (map (\<lambda>pg. Response 200 (Some pg)) pages @ replies) (odata_nextLink pg) None
        (booked \<union> spec_events_dates p start_date end_date (page_events pg))
        (sent @ [GraphGet u params token]) =
      page_loop p start_date end_date token replies (url_after (odata_nextLink pg) pages)
        (params_after None pages)
        (booked \<union> spec_events_dates p start_date end_date (page_events pg)
           \<union> spec_booked_dates p start_date end_date pages)
        ((sent @ [GraphGet u params token]) @ page_requests token (odata_nextLink pg) None pages)"
      using Cons.prems(1,2) next_ok Cons by (intro Cons.IH) simp_all
    show ?thesis
      using step IH u Cons
      by (simp add: url_after_def params_after_def spec_booked_dates_Cons Un_assoc)
  qed
qed


lemma events_url_nonempty: "events_url calendar_id \<noteq> ''''"
  by (simp add: events_url_def GRAPH_API_BASE_def)

lemma fetch_with_token:
  assumes "get_access_token w st = Inr (Some token, st', sent)" "token \<noteq> ''''"
  shows "returned_dates (fetch_calendar_events_graph p w calendar_id start_date end_date st) =
         map_option (\<lambda>r. Inr (fst r))
           (page_loop p start_date end_date token (graph_replies w)
              (Some (events_url calendar_id)) (Some GRAPH_PARAMS) {} sent)"
  using assms
  by (cases "page_loop p start_date end_date token (graph_replies w)
              (Some (events_url calendar_id)) (Some GRAPH_PARAMS) {} sent")
     (auto simp: returned_dates_def fetch_calendar_events_graph_def)

lemma fetch_complete:
  assumes "valid_parser p"
    and "get_access_token w st = Inr (Some token, st', sent)" and "token \<noteq> ''''"
    and "graph_replies w = map (\<lambda>pg. Response 200 (Some pg)) pages @ replies"
    and "pages \<noteq> []" and "\<forall>pg \<in> set (butlast pages). has_next pg"
    and "\<not> has_next (last pages)"
    and "\<forall>pg \<in> set pages. \<forall>ev \<in> set (page_events pg). parses p ev"
  shows "returned_dates (fetch_calendar_events_graph p w calendar_id from_date to_date st) =
           Some (Inr (spec_booked_dates p from_date to_date pages))"
proof -
  have "case url_after (Some (events_url calendar_id)) pages of None \<Rightarrow> True | Some u \<Rightarrow> u = ''''"
    using assms(5,7) by (simp add: url_after_def has_next_def split: option.splits)
  then have "page_loop p from_date to_date token (graph_replies w)
              (Some (events_url calendar_id)) (Some GRAPH_PARAMS) {} sent =
        Some ({} \<union> spec_booked_dates p from_date to_date pages,
              sent @ page_requests token (Some (events_url calendar_id)) (Some GRAPH_PARAMS) pages)"
    unfolding assms(4)
    using page_loop_pages [OF assms(1,8,6), of "Some (events_url calendar_id)"]
    by (simp add: events_url_nonempty page_loop_done)
  then show ?thesis
    by (simp add: fetch_with_token [OF assms(2,3)])
qed

lemma fetch_http_error:
  assumes "valid_parser p"
    and "get_access_token w st = Inr (Some token, st', sent)" and "token \<noteq> ''''"
    and "graph_replies w =
           map (\<lambda>pg. Response 200 (Some pg)) pages @ Response status_code body # replies"
    and "status_code \<noteq> 200"
    and "\<forall>pg \<in> set pages. has_next pg"
    and "\<forall>pg \<in> set pages. \<forall>ev \<in> set (page_events pg). parses p ev"
  shows "returned_dates (fetch_calendar_events_graph p w calendar_id from_date to_date st) =
           Some (Inr (spec_booked_dates p from_date to_date pages))"
proof -
  have "\<forall>pg \<in> set (butlast pages). has_next pg"
    using assms(6) by (auto dest: in_set_butlastD)
  note walk = page_loop_pages [OF assms(1,7) this, of "Some (events_url calendar_id)"]
  obtain u where u: "url_after (Some (events_url calendar_id)) pages = Some u" "u \<noteq> ''''"
  proof (cases "pages = []")
    case True
    then show ?thesis using that by (simp add: url_after_def events_url_nonempty)
  next
    case False
    then have "has_next (last pages)" using assms(6) by simp
    then show ?thesis using that False
      by (auto simp: url_after_def has_next_def split: option.splits)
  qed
  have "page_loop p from_date to_date token (graph_replies w)
              (Some (events_url calendar_id)) (Some GRAPH_PARAMS) {} sent =
        Some ({} \<union> spec_booked_dates p from_date to_date pages,
              (sent @ page_requests token (Some (events_url calendar_id)) (Some GRAPH_PARAMS) pages)
                @ [GraphGet u (params_after (Some GRAPH_PARAMS) pages) token])"
    unfolding assms(4)
    using walk u assms(5)
    by (simp add: events_url_nonempty page_loop_error)
  then show ?thesis
    by (simp add: fetch_with_token [OF assms(2,3)])
qed





lemma get_access_token_graph_replies:
  "get_access_token (w\<lparr>graph_replies := replies\<rparr>) st = get_access_token w st"
proof -
  have a: "cached_token_valid (w\<lparr>graph_replies := replies\<rparr>) st = cached_token_valid w st"
    by (simp add: cached_token_valid_def split: option.splits sum.splits)
  have b: "refresh_access_token (w\<lparr>graph_replies := replies\<rparr>) st = refresh_access_token w st"
    by (simp add: refresh_access_token_def Let_def
        cong: http_result.case_cong option.case_cong sum.case_cong if_cong)
  show ?thesis unfolding get_access_token_def a b by simp
qed



lemma valid_parser_date_of_iso: "valid_parser date_of_iso"
  by (auto simp: valid_parser_def date_of_iso_def split: if_splits option.splits sum.splits)

lemma example_token:
  "get_access_token example_world initial_token_state =
     Inr (Some ''access'',
          \<lparr>cached_token = Some ''access'', token_expires_at = Some (example_noon + 3601000000)\<rparr>,
          [TokenPost TOKEN_URL (token_form (get_config example_environ))])"
  by (simp add: get_access_token_def example_world_def get_config_def environ_get_def
      example_environ_def cached_token_valid_def initial_token_state_def
      refresh_access_token_def example_token_reply_def timedelta_seconds_def datetime_add_def
      example_noon_def DATETIME_MAX_def MAXORDINAL_def)

lemma example_dates:
  "date_of_iso (replace_Z ''2026-06-12T00:00:00.0000000'') = Some 739779"
  "date_of_iso (replace_Z ''2026-06-14T00:00:00.0000000'') = Some 739781"
  "date_of_iso (replace_Z ''2026-07-03T00:00:00.0000000'') = Some 739800"
  "date_of_iso (replace_Z ''2026-07-04T00:00:00.0000000'') = Some 739801"
  by code_simp+

lemma example_intervals:
  "event_interval date_of_iso booking_june = Some (739779, 739781)"
  "event_interval date_of_iso booking_july = Some (739800, 739801)"
  "event_interval date_of_iso meeting_june = None"
  "event_interval date_of_iso booking_without_end = None"
  by (simp_all add: event_interval_def skipped_def all_day_def start_str_def end_str_def
      date_time_str_def booking_june_def booking_july_def meeting_june_def
      booking_without_end_def example_dates)

lemma example_skipped: "skipped meeting_june" "skipped booking_without_end"
  by (simp_all add: skipped_def all_day_def start_str_def end_str_def
      date_time_str_def meeting_june_def booking_without_end_def)

lemma example_parses:
  "\<forall>pg \<in> set [example_page1, example_page2]. \<forall>ev \<in> set (page_events pg). parses date_of_iso ev"
  by (simp add: page_events_def example_page1_def example_page2_def parses_def example_intervals
      example_skipped)

lemma in_spec_events_dates:
  "d \<in> spec_events_dates p from_date to_date events \<longleftrightarrow>
     (\<exists>ev \<in> set events. \<exists>s e.
        event_interval p ev = Some (s, e) \<and> s \<le> d \<and> d < e \<and> from_date \<le> d \<and> d \<le> to_date)"
proof -
  have "d \<in> (case event_interval p ev of
               None \<Rightarrow> {}
             | Some interval \<Rightarrow> spec_event_dates from_date to_date interval) \<longleftrightarrow>
        (\<exists>s e. event_interval p ev = Some (s, e) \<and> s \<le> d \<and> d < e \<and> from_date \<le> d \<and> d \<le> to_date)"
    for ev
    by (cases "event_interval p ev") (auto simp: spec_event_dates_def)
  then show ?thesis by (simp add: spec_events_dates_def)
qed

lemma spec_booked_dates_iff:
  "d \<in> spec_booked_dates p from_date to_date pages \<longleftrightarrow>
     (\<exists>pg \<in> set pages. \<exists>ev \<in> set (page_events pg). \<exists>s e.
        event_interval p ev = Some (s, e) \<and> s \<le> d \<and> d < e \<and> from_date \<le> d \<and> d \<le> to_date)"
  by (auto simp: spec_booked_dates_def in_spec_events_dates)

lemma spec_events_dates_Nil: "spec_events_dates p from_date to_date [] = {}"
  by (simp add: spec_events_dates_def)

lemma spec_events_dates_Cons:
  "spec_events_dates p from_date to_date (ev # events) =
     (case event_interval p ev of
        None \<Rightarrow> {}
      | Some interval \<Rightarrow> spec_event_dates from_date to_date interval)
     \<union> spec_events_dates p from_date to_date events"
  by (simp add: spec_events_dates_def)

lemma example_page_dates:
  "spec_events_dates date_of_iso 739768 741208 (page_events example_page1) = {739779, 739780}"
  "spec_events_dates date_of_iso 739768 741208 (page_events example_page2) = {739800}"
  by (auto simp: page_events_def example_page1_def example_page2_def spec_events_dates_Cons
      spec_events_dates_Nil example_intervals spec_event_dates_def)


lemma failing_token:
  "get_access_token failing_world initial_token_state =
     get_access_token example_world initial_token_state"
  unfolding failing_world_def by (rule get_access_token_graph_replies)








section \<open>Properties of the token provider\<close>

lemma timedelta_minutes_5: "timedelta_minutes 5 = Inr 300000000"
  by (simp add: timedelta_minutes_def timedelta_seconds_def)

lemma cached_token_valid_ok:
  assumes "token_state_ok st"
  shows "\<exists>b. cached_token_valid w st = Inr b"
proof (cases "cached_token st")
  case None
  then have "cached_token_valid w st = Inr False" by (simp add: cached_token_valid_def)
  then show ?thesis by blast
next
  case (Some tok)
  show ?thesis
  proof (cases "token_expires_at st")
    case None
    with Some have "cached_token_valid w st = Inr False" by (simp add: cached_token_valid_def)
    then show ?thesis by blast
  next
    case (Some expires)
    then have "300000000 \<le> expires" "expires \<le> DATETIME_MAX"
      using assms by (simp_all add: token_state_ok_def)
    then have "datetime_sub expires 300000000 = Inr (expires - 300000000)"
      by (simp add: datetime_sub_def datetime_add_def)
    then have "cached_token_valid w st =
        (if tok = '''' then Inr False else Inr (now_check w < expires - 300000000))"
      using Some \<open>cached_token st = Some tok\<close>
      by (simp add: cached_token_valid_def timedelta_minutes_5)
    then show ?thesis by (cases "tok = ''''") auto
  qed
qed


lemma refresh_access_token_failed:
  assumes "exchange_failed (token_reply w)"
  shows "refresh_access_token w st = (None, st)"
  using assms
  by (auto simp: exchange_failed_def refresh_access_token_def
      split: http_result.splits option.splits)

lemma get_access_token_unconfigured:
  "refresh_token (get_config (environ w)) = '''' \<Longrightarrow>
   get_access_token w st = Inr (None, st, [])"
  by (simp add: get_access_token_def)

lemma get_access_token_cached:
  assumes "refresh_token (get_config (environ w)) \<noteq> ''''"
    and "cached_token_valid w st = Inr True"
  shows "get_access_token w st = Inr (cached_token st, st, [])"
  using assms by (simp add: get_access_token_def)

lemma get_access_token_exchange:
  assumes "refresh_token (get_config (environ w)) \<noteq> ''''"
    and "cached_token_valid w st = Inr False"
  shows "get_access_token w st =
     Inr (fst (refresh_access_token w st), snd (refresh_access_token w st),
          [TokenPost TOKEN_URL (token_form (get_config (environ w)))])"
  using assms by (simp add: get_access_token_def split: prod.splits)

lemma get_access_token_returns:
  assumes "token_state_ok st"
  shows "\<exists>result st' sent. get_access_token w st = Inr (result, st', sent)"
proof (cases "refresh_token (get_config (environ w)) = ''''")
  case True
  then show ?thesis by (simp add: get_access_token_unconfigured)
next
  case False
  from cached_token_valid_ok [OF assms] obtain b where b: "cached_token_valid w st = Inr b"
    by blast
  show ?thesis
  proof (cases b)
    case True
    then show ?thesis using False b by (simp add: get_access_token_cached)
  next
    case b_False: False
    then show ?thesis using False b by (simp add: get_access_token_exchange)
  qed
qed

lemma get_access_token_raises:
  "get_access_token w st = Inl e \<longleftrightarrow>
     refresh_token (get_config (environ w)) \<noteq> '''' \<and> cached_token_valid w st = Inl e"
  by (auto simp: get_access_token_def Let_def split: sum.splits bool.splits prod.splits)


lemma fetch_unconfigured:
  "refresh_token (get_config (environ w)) = '''' \<Longrightarrow>
   fetch_calendar_events_graph p w calendar_id start_date end_date st = Some (Inr ({}, st, []))"
  by (simp add: fetch_calendar_events_graph_def get_access_token_unconfigured)


section \<open>Claims about the availability projection\<close>

text \<open>
  Claim C2. For a venue whose lease boundary is 2030-03-31, the projection for 2031 is
  the empty list, and every record of the projection for 2030 is the entry of a date no
  later than 2030-03-31. In general the projection is the walk over the scan window
  that starts as the specification says and ends on December 31 of the requested year
  clamped down to the lease boundary, and it is empty when the window's start lies after
  its end. (The walk steps one day beyond the window's end before it stops, so the general
  statement leaves out the one window that ends on 9999-12-31, where that step raises.)
\<close>

theorem lease_boundary_clamps_projection:
  assumes lease: "VENUE_LEASE_END venue = Some (ymd2ord 2030 3 31)"
    and entry: "cache venue = Some entry"
    and today: "valid_date today"
  shows "get_weekend_days_for_year cache today venue 2031 = Inr [] \<and>
         (\<exists>ds. get_weekend_days_for_year cache today venue 2030
                  = Inr (map (day_entry (booked_dates entry)) ds)
               \<and> (\<forall>d \<in> set ds. d \<le> ymd2ord 2030 3 31)) \<and>
         (\<forall>v e year.
            cache v = Some e \<and> 1 \<le> year \<and> year \<le> 9999 \<and>
            (spec_scan_end v year < spec_scan_start today year \<or> spec_scan_end v year < MAXORDINAL)
            \<longrightarrow> get_weekend_days_for_year cache today v year
                  = Inr (map (day_entry (booked_dates e))
                          (filter is_weekend [spec_scan_start today year..spec_scan_end v year]))) \<and>
         (\<forall>v e year.
            cache v = Some e \<and> 1 \<le> year \<and> year \<le> 9999 \<and>
            spec_scan_end v year < spec_scan_start today year
            \<longrightarrow> get_weekend_days_for_year cache today v year = Inr [])"
proof (intro conjI allI impI)
  have "741442 < spec_scan_start today 2031"
    using year_start_le_today [of 2031 today]
    by (auto simp: spec_scan_start_code ymd2ord_values)
  moreover have "spec_scan_end venue 2031 = 741167"
    by (simp add: spec_scan_end_def lease lease_2030 ymd2ord_values)
  ultimately have "spec_scan_end venue 2031 < spec_scan_start today 2031" by simp
  then show "get_weekend_days_for_year cache today venue 2031 = Inr []"
    using get_weekend_days_for_year_walk [where cache = cache and venue = venue, OF _ _ entry today, of 2031]
    by simp
next
  have e: "spec_scan_end venue 2030 = 741167"
    by (simp add: spec_scan_end_def lease lease_2030 ymd2ord_values)
  let ?ds = "filter is_weekend [spec_scan_start today 2030..spec_scan_end venue 2030]"
  have "get_weekend_days_for_year cache today venue 2030
          = Inr (map (day_entry (booked_dates entry)) ?ds)"
    using get_weekend_days_for_year_walk [where cache = cache and venue = venue, OF _ _ entry today, of 2030]
    by (simp add: e MAXORDINAL_def)
  moreover have "\<forall>d \<in> set ?ds. d \<le> ymd2ord 2030 3 31"
    by (simp add: e lease_2030)
  ultimately show "\<exists>ds. get_weekend_days_for_year cache today venue 2030
                  = Inr (map (day_entry (booked_dates entry)) ds)
               \<and> (\<forall>d \<in> set ds. d \<le> ymd2ord 2030 3 31)"
    by blast
next
  fix v e year
  assume a: "cache v = Some e \<and> 1 \<le> year \<and> year \<le> 9999 \<and>
            (spec_scan_end v year < spec_scan_start today year \<or> spec_scan_end v year < MAXORDINAL)"
  then show "get_weekend_days_for_year cache today v year
                  = Inr (map (day_entry (booked_dates e))
                          (filter is_weekend [spec_scan_start today year..spec_scan_end v year]))"
    using get_weekend_days_for_year_walk [where cache = cache and venue = v and entry = e, OF _ _ _ today, of year]
    by blast
next
  fix v e year
  assume a: "cache v = Some e \<and> 1 \<le> year \<and> year \<le> 9999 \<and>
            spec_scan_end v year < spec_scan_start today year"
  then show "get_weekend_days_for_year cache today v year = Inr []"
    using get_weekend_days_for_year_walk [where cache = cache and venue = v and entry = e, OF _ _ _ today, of year]
    by simp
qed

theorem lease_boundary_clamps_projection_witness:
  "VENUE_LEASE_END ''ballroom'' = Some (ymd2ord 2030 3 31) \<and>
   initial_cache ''ballroom'' = Some \<lparr>booked_dates = {}, last_updated = None\<rparr> \<and>
   valid_date 741165 \<and>
   get_weekend_days_for_year initial_cache 741165 ''ballroom'' 2031 = Inr [] \<and>
   get_weekend_days_for_year initial_cache 741165 ''ballroom'' 2030 =
     Inr [\<lparr>date = ''2030-03-29'', day = ''friday'', available = True\<rparr>,
          \<lparr>date = ''2030-03-30'', day = ''saturday'', available = True\<rparr>,
          \<lparr>date = ''2030-03-31'', day = ''sunday'', available = True\<rparr>]"
proof -
  let ?entry = "\<lparr>booked_dates = {}, last_updated = None\<rparr>"
  have h1: "VENUE_LEASE_END ''ballroom'' = Some (ymd2ord 2030 3 31)"
    by (simp add: VENUE_LEASE_END_def)
  have h2: "initial_cache ''ballroom'' = Some ?entry"
    by (simp add: initial_cache_def VENUES_def CALENDARS_def)
  have h3: "valid_date 741165"
    by (simp add: valid_date_def MAXORDINAL_def)
  note claim = lease_boundary_clamps_projection
    [where cache = initial_cache and venue = "''ballroom''", OF h1 h2 h3]
  have y: "year_of 741165 = 2030" by code_simp
  have window: "spec_scan_start 741165 2030 = 741165" "spec_scan_end ''ballroom'' 2030 = 741167"
    by (simp_all add: spec_scan_start_code y spec_scan_end_def VENUE_LEASE_END_def lease_2030
        ymd2ord_values)
  have walk: "map (day_entry (booked_dates ?entry))
       (filter is_weekend [spec_scan_start 741165 2030..spec_scan_end ''ballroom'' 2030]) =
     [\<lparr>date = ''2030-03-29'', day = ''friday'', available = True\<rparr>,
      \<lparr>date = ''2030-03-30'', day = ''saturday'', available = True\<rparr>,
      \<lparr>date = ''2030-03-31'', day = ''sunday'', available = True\<rparr>]"
    unfolding window by code_simp
  have pre: "initial_cache ''ballroom'' = Some ?entry \<and> 1 \<le> (2030::int) \<and> (2030::int) \<le> 9999 \<and>
      (spec_scan_end ''ballroom'' 2030 < spec_scan_start 741165 2030
         \<or> spec_scan_end ''ballroom'' 2030 < MAXORDINAL)"
    using h2 by (simp add: window MAXORDINAL_def)
  from claim have general: "\<forall>v e year.
      initial_cache v = Some e \<and> 1 \<le> year \<and> year \<le> 9999 \<and>
      (spec_scan_end v year < spec_scan_start 741165 year \<or> spec_scan_end v year < MAXORDINAL)
      \<longrightarrow> get_weekend_days_for_year initial_cache 741165 v year
            = Inr (map (day_entry (booked_dates e))
                    (filter is_weekend [spec_scan_start 741165 year..spec_scan_end v year]))"
    by (elim conjE)
  from claim have y2031: "get_weekend_days_for_year initial_cache 741165 ''ballroom'' 2031 = Inr []"
    by (elim conjE)
  have y2030: "get_weekend_days_for_year initial_cache 741165 ''ballroom'' 2030 =
     Inr [\<lparr>date = ''2030-03-29'', day = ''friday'', available = True\<rparr>,
          \<lparr>date = ''2030-03-30'', day = ''saturday'', available = True\<rparr>,
          \<lparr>date = ''2030-03-31'', day = ''sunday'', available = True\<rparr>]"
    using general [rule_format, OF pre] by (simp only: walk)
  show ?thesis
    by (intro conjI h1 h2 h3 y2031 y2030)
qed

text \<open>
  Claim C3, as amended. With the booked dates 2026-06-12 and 2026-06-13 and today no
  later than 2026-06-13, the projection for 2026 has a record for Saturday 2026-06-13
  that is not available, a record for Sunday 2026-06-14 that is available (the date is
  not in the booked set, and availability is exactly non-membership), and a record for
  Friday 2026-06-19 that is available.
\<close>

theorem june_2026_scenario:
  assumes "cache venue = Some entry"
    and "booked_dates entry = {ymd2ord 2026 6 12, ymd2ord 2026 6 13}"
    and "valid_date today" and "today \<le> ymd2ord 2026 6 13"
  shows "record_for ''2026-06-13'' (get_weekend_days_for_year cache today venue 2026)
           = Some \<lparr>date = ''2026-06-13'', day = ''saturday'', available = False\<rparr> \<and>
         record_for ''2026-06-14'' (get_weekend_days_for_year cache today venue 2026)
           = Some \<lparr>date = ''2026-06-14'', day = ''sunday'', available = True\<rparr> \<and>
         record_for ''2026-06-19'' (get_weekend_days_for_year cache today venue 2026)
           = Some \<lparr>date = ''2026-06-19'', day = ''friday'', available = True\<rparr>"
  using june_2026_projection [where cache = cache and venue = venue, OF assms] by simp

theorem june_2026_scenario_witness:
  "(initial_cache(''garden'' \<mapsto> \<lparr>booked_dates = {ymd2ord 2026 6 12, ymd2ord 2026 6 13},
                                     last_updated = None\<rparr>)) ''garden''
     = Some \<lparr>booked_dates = {ymd2ord 2026 6 12, ymd2ord 2026 6 13}, last_updated = None\<rparr> \<and>
   valid_date 739779 \<and> 739779 \<le> ymd2ord 2026 6 13 \<and>
   record_for ''2026-06-19''
     (get_weekend_days_for_year
        (initial_cache(''garden'' \<mapsto> \<lparr>booked_dates = {ymd2ord 2026 6 12, ymd2ord 2026 6 13},
                                          last_updated = None\<rparr>))
        739779 ''garden'' 2026)
     = Some \<lparr>date = ''2026-06-19'', day = ''friday'', available = True\<rparr>"
proof -
  let ?entry = "\<lparr>booked_dates = {ymd2ord 2026 6 12, ymd2ord 2026 6 13}, last_updated = None\<rparr>"
  have h1: "(initial_cache(''garden'' \<mapsto> ?entry)) ''garden'' = Some ?entry" by simp
  have h2: "booked_dates ?entry = {ymd2ord 2026 6 12, ymd2ord 2026 6 13}" by simp
  have h3: "valid_date 739779" by (simp add: valid_date_def MAXORDINAL_def)
  have h4: "739779 \<le> ymd2ord 2026 6 13" by (simp add: ymd2ord_values)
  from june_2026_scenario
    [where cache = "initial_cache(''garden'' \<mapsto> ?entry)" and venue = "''garden''",
      OF h1 h2 h3 h4]
    h1 h3 h4
  show ?thesis by blast
qed

text \<open>
  Claim C3 as the specification states it asks for \<open>available = False\<close> in the record
  for Sunday 2026-06-14. On the day 2026-06-12, with exactly the two booked dates of the
  scenario, the record for 2026-06-14 says \<open>available = True\<close>.
\<close>

theorem june_14_available_counterexample:
  "map_option available
     (record_for ''2026-06-14''
        (get_weekend_days_for_year
           (initial_cache(''garden'' \<mapsto> \<lparr>booked_dates = {ymd2ord 2026 6 12, ymd2ord 2026 6 13},
                                             last_updated = None\<rparr>))
           (ymd2ord 2026 6 12) ''garden'' 2026))
   = Some True"
proof -
  let ?entry = "\<lparr>booked_dates = {ymd2ord 2026 6 12, ymd2ord 2026 6 13}, last_updated = None\<rparr>"
  have h1: "(initial_cache(''garden'' \<mapsto> ?entry)) ''garden'' = Some ?entry" by simp
  have h2: "booked_dates ?entry = {ymd2ord 2026 6 12, ymd2ord 2026 6 13}" by simp
  have h3: "valid_date (ymd2ord 2026 6 12)" by (simp add: valid_date_def MAXORDINAL_def ymd2ord_values)
  have h4: "ymd2ord 2026 6 12 \<le> ymd2ord 2026 6 13" by (simp add: ymd2ord_values)
  show ?thesis
    using june_2026_projection(2)
      [where cache = "initial_cache(''garden'' \<mapsto> ?entry)" and venue = "''garden''",
        OF h1 h2 h3 h4]
    by simp
qed

section \<open>Claims about the event fetcher\<close>

text \<open>
  Claim C1, as amended. Take a fetch that obtains a token and reads its pages to the end
  (every answer has status 200 and every page but the last names a next page), and in
  which the start and end strings of every event that is not skipped parse as dates.
  Then a date \<open>d\<close> is in the returned set if and only if some event of some page has an
  interval from \<open>s\<close> to \<open>e\<close> with \<open>s \<le> d < e\<close> and \<open>from_date \<le> d \<le> to_date\<close>. The end
  date of an event is not among the dates that the event contributes, and no returned
  date lies outside the window.
\<close>

theorem fetch_returns_event_days_in_window:
  assumes "valid_parser p"
    and "get_access_token w st = Inr (Some token, st', sent)" and "token \<noteq> ''''"
    and "graph_replies w = map (\<lambda>pg. Response 200 (Some pg)) pages @ replies"
    and "pages \<noteq> []" and "\<forall>pg \<in> set (butlast pages). has_next pg"
    and "\<not> has_next (last pages)"
    and "\<forall>pg \<in> set pages. \<forall>ev \<in> set (page_events pg). parses p ev"
  shows "returned_dates (fetch_calendar_events_graph p w calendar_id from_date to_date st)
           = Some (Inr (spec_booked_dates p from_date to_date pages)) \<and>
         (\<forall>d. d \<in> spec_booked_dates p from_date to_date pages \<longleftrightarrow>
            (\<exists>pg \<in> set pages. \<exists>ev \<in> set (page_events pg). \<exists>s e.
               event_interval p ev = Some (s, e) \<and>
               s \<le> d \<and> d < e \<and> from_date \<le> d \<and> d \<le> to_date)) \<and>
         (\<forall>s e. e \<notin> spec_event_dates from_date to_date (s, e)) \<and>
         (\<forall>d \<in> spec_booked_dates p from_date to_date pages. from_date \<le> d \<and> d \<le> to_date)"
proof (intro conjI)
  show "returned_dates (fetch_calendar_events_graph p w calendar_id from_date to_date st)
           = Some (Inr (spec_booked_dates p from_date to_date pages))"
    using assms by (rule fetch_complete)
  show "\<forall>d. d \<in> spec_booked_dates p from_date to_date pages \<longleftrightarrow>
            (\<exists>pg \<in> set pages. \<exists>ev \<in> set (page_events pg). \<exists>s e.
               event_interval p ev = Some (s, e) \<and>
               s \<le> d \<and> d < e \<and> from_date \<le> d \<and> d \<le> to_date)"
    by (simp only: spec_booked_dates_iff) simp
  show "\<forall>s e. e \<notin> spec_event_dates from_date to_date (s, e)"
    by (simp add: spec_event_dates_def)
  show "\<forall>d \<in> spec_booked_dates p from_date to_date pages. from_date \<le> d \<and> d \<le> to_date"
    by (auto simp: spec_booked_dates_iff)
qed


theorem fetch_returns_event_days_in_window_witness:
  "returned_dates
     (fetch_calendar_events_graph date_of_iso example_world ''garden-calendar'' 739768 741208
        initial_token_state)
     = Some (Inr {739779, 739780, 739800})"
proof -
  have replies: "graph_replies example_world =
      map (\<lambda>pg. Response 200 (Some pg)) [example_page1, example_page2] @ []"
    by (simp add: example_world_def)
  have chain: "[example_page1, example_page2] \<noteq> []"
    "\<forall>pg \<in> set (butlast [example_page1, example_page2]). has_next pg"
    "\<not> has_next (last [example_page1, example_page2])"
    by (simp_all add: has_next_def example_page1_def example_page2_def)
  note claim = fetch_returns_event_days_in_window
    [OF valid_parser_date_of_iso example_token _ replies chain example_parses,
      of "''garden-calendar''" 739768 741208]
  have dates: "spec_booked_dates date_of_iso 739768 741208 [example_page1, example_page2]
      = {739779, 739780, 739800}"
    by (auto simp: spec_booked_dates_Cons spec_booked_dates_Nil example_page_dates)
  from claim dates show ?thesis by simp
qed

text \<open>
  Claim C1 as the specification states it speaks of every all-day event returned during
  a fetch. When the start or the end of an event does not parse, the library raises
  \<^verbatim>\<open>ValueError\<close>, the handler around the loop catches it, and the fetch returns the dates
  collected before that event. In the scenario the page holds such an event before the
  booking from 2026-06-12 to 2026-06-14, and the fetch returns the empty set, although
  2026-06-12 and 2026-06-13 lie in the booking and in the window.
\<close>

theorem unparseable_event_counterexample:
  "page_events unparseable_page = [booking_unparseable, booking_june] \<and>
   event_interval date_of_iso booking_june = Some (739779, 739781) \<and>
   returned_dates
     (fetch_calendar_events_graph date_of_iso unparseable_world ''garden-calendar'' 739768 741208
        initial_token_state)
     = Some (Inr {})"
proof -
  have token: "get_access_token unparseable_world initial_token_state =
      get_access_token example_world initial_token_state"
    unfolding unparseable_world_def by (rule get_access_token_graph_replies)
  have start: "date_of_iso (replace_Z ''not-a-date'') = None"
    by code_simp
  have first: "process_event date_of_iso 739768 741208 booking_unparseable {} = (Some ValueError, {})"
    by (simp add: process_event_def booking_unparseable_def date_time_str_def start)
  have replies: "graph_replies unparseable_world = [Response 200 (Some unparseable_page)]"
    by (simp add: unparseable_world_def)
  have "fetch_calendar_events_graph date_of_iso unparseable_world ''garden-calendar'' 739768
          741208 initial_token_state =
        Some (Inr ({},
          \<lparr>cached_token = Some ''access'', token_expires_at = Some (example_noon + 3601000000)\<rparr>,
          [TokenPost TOKEN_URL (token_form (get_config example_environ)),
           GraphGet (events_url ''garden-calendar'') (Some GRAPH_PARAMS) ''access'']))"
    by (simp add: fetch_calendar_events_graph_def token example_token replies events_url_nonempty
        unparseable_page_def first)
  then show ?thesis
    by (simp add: returned_dates_def page_events_def unparseable_page_def example_intervals)
qed

text \<open>
  Claim C6. When the event listing answers a request with a status other than 200 after
  a number of pages were read, the fetch returns (it does not raise) and the set it
  returns is exactly the set of booked dates of the pages read before.
\<close>

theorem http_error_returns_partial_result:
  assumes "valid_parser p"
    and "get_access_token w st = Inr (Some token, st', sent)" and "token \<noteq> ''''"
    and "graph_replies w =
           map (\<lambda>pg. Response 200 (Some pg)) pages @ Response status_code body # replies"
    and "status_code \<noteq> 200"
    and "\<forall>pg \<in> set pages. has_next pg"
    and "\<forall>pg \<in> set pages. \<forall>ev \<in> set (page_events pg). parses p ev"
  shows "returned_dates (fetch_calendar_events_graph p w calendar_id from_date to_date st)
           = Some (Inr (spec_booked_dates p from_date to_date pages))"
  using assms by (rule fetch_http_error)

theorem http_error_returns_partial_result_witness:
  "returned_dates
     (fetch_calendar_events_graph date_of_iso failing_world ''garden-calendar'' 739768 741208
        initial_token_state)
     = Some (Inr {739779, 739780})"
proof -
  have replies: "graph_replies failing_world =
      map (\<lambda>pg. Response 200 (Some pg)) [example_page1]
        @ Response 500 None # [Response 200 (Some example_page2)]"
    by (simp add: failing_world_def)
  have chain: "\<forall>pg \<in> set [example_page1]. has_next pg"
    by (simp add: has_next_def example_page1_def)
  have parses: "\<forall>pg \<in> set [example_page1]. \<forall>ev \<in> set (page_events pg). parses date_of_iso ev"
    using example_parses by simp
  have token: "get_access_token failing_world initial_token_state =
     Inr (Some ''access'',
          \<lparr>cached_token = Some ''access'', token_expires_at = Some (example_noon + 3601000000)\<rparr>,
          [TokenPost TOKEN_URL (token_form (get_config example_environ))])"
    by (simp only: failing_token example_token)
  note claim = http_error_returns_partial_result
    [OF valid_parser_date_of_iso token _ replies _ chain parses,
      of "''garden-calendar''" 739768 741208]
  have dates: "spec_booked_dates date_of_iso 739768 741208 [example_page1] = {739779, 739780}"
    by (simp add: spec_booked_dates_Cons spec_booked_dates_Nil example_page_dates)
  from claim dates show ?thesis by simp
qed

section \<open>Claims about the token provider\<close>




text \<open>
  Apart from the test of the cached token, the token provider fails softly. In a state
  of the token globals in which the five-minute margin can be subtracted from the stored
  expiry, \<^verbatim>\<open>get_access_token\<close> returns, and when the exchange is attempted and fails (no
  connection, a status other than 200, an unreadable body or a body without a token) the
  result is \<open>None\<close>. Without a configured refresh token the result is \<open>None\<close> and no
  request is sent, and the fetcher returns the empty set and sends no request.
\<close>

lemma token_provider_fails_soft:
  "(token_state_ok st \<longrightarrow>
      (\<exists>result st' sent.
          get_access_token w st = Inr (result, st', sent) \<and>
          (sent \<noteq> [] \<and> exchange_failed (token_reply w) \<longrightarrow> result = None))) \<and>
   (refresh_token (get_config (environ w)) = '''' \<longrightarrow>
      get_access_token w st = Inr (None, st, []) \<and>
      fetch_calendar_events_graph p w calendar_id from_date to_date st
        = Some (Inr ({}, st, [])) \<and>
      (\<forall>venue months_ahead a b.
         fetch_window (date_today w) months_ahead = Inr (a, b) \<longrightarrow>
         get_booked_dates p w venue months_ahead st = Some (Inr ({}, st, []))))"
proof (intro conjI impI allI)
  assume ok: "token_state_ok st"
  show "\<exists>result st' sent.
            get_access_token w st = Inr (result, st', sent) \<and>
            (sent \<noteq> [] \<and> exchange_failed (token_reply w) \<longrightarrow> result = None)"
  proof (cases "refresh_token (get_config (environ w)) = ''''")
    case True
    then show ?thesis by (simp add: get_access_token_unconfigured)
  next
    case False
    from cached_token_valid_ok [OF ok] obtain b where b: "cached_token_valid w st = Inr b"
      by blast
    show ?thesis
    proof (cases b)
      case True
      then show ?thesis using False b by (simp add: get_access_token_cached)
    next
      case b_False: False
      have "exchange_failed (token_reply w) \<longrightarrow> fst (refresh_access_token w st) = None"
        by (simp add: refresh_access_token_failed)
      then show ?thesis using False b b_False by (simp add: get_access_token_exchange)
    qed
  qed
next
  assume "refresh_token (get_config (environ w)) = ''''"
  then show "get_access_token w st = Inr (None, st, [])"
    by (rule get_access_token_unconfigured)
next
  assume "refresh_token (get_config (environ w)) = ''''"
  then show "fetch_calendar_events_graph p w calendar_id from_date to_date st
              = Some (Inr ({}, st, []))"
    by (rule fetch_unconfigured)
next
  fix venue months_ahead a b
  assume "refresh_token (get_config (environ w)) = ''''"
    and "fetch_window (date_today w) months_ahead = Inr (a, b)"
  then show "get_booked_dates p w venue months_ahead st = Some (Inr ({}, st, []))"
    by (simp add: get_booked_dates_def)
qed

text \<open>The token provider raises in one situation only: a refresh token is configured, a
  non-empty token is stored, and five minutes before the stored expiry is not a
  timestamp.\<close>

lemma token_provider_raises_iff:
  "get_access_token w st = Inl e \<longleftrightarrow>
     refresh_token (get_config (environ w)) \<noteq> '''' \<and>
     (\<exists>tok expires.
        cached_token st = Some tok \<and> tok \<noteq> '''' \<and> token_expires_at st = Some expires \<and>
        (expires < 300000000 \<or> DATETIME_MAX + 300000000 < expires)) \<and>
     e = OverflowError"
proof -
  have "cached_token_valid w st = Inl e \<longleftrightarrow>
     (\<exists>tok expires.
        cached_token st = Some tok \<and> tok \<noteq> '''' \<and> token_expires_at st = Some expires \<and>
        (expires < 300000000 \<or> DATETIME_MAX + 300000000 < expires)) \<and>
     e = OverflowError"
    by (auto simp: cached_token_valid_def timedelta_minutes_5 datetime_sub_def datetime_add_def
        Let_def split: option.splits if_splits)
  then show ?thesis by (simp add: get_access_token_raises)
qed



section \<open>Further claims about the event fetcher and the refresh\<close>



















end
